theory Spec2Isabelle
  imports Main "HOL-Library.Word"
begin

section \<open>Go runtime panics\<close>

text \<open>
  A Go runtime panic ends the call; every operation that can panic returns
  \<open>panic + 'a\<close>, with \<open>Inl\<close> for the panic.
\<close>

datatype panic = DivideByZero | IndexOutOfRange | MakesliceLenOutOfRange | NilDereference

section \<open>ringbuffer/ringbuffer.go\<close>

text \<open>
  \<open>buffer[T]\<close>: the slice \<open>items\<close> and the three \<open>int64\<close> indices. The indices are
  set to \<open>0\<close> or a slice length and then only changed by \<open>%\<close>, \<open>+\<close> and \<open>* 2\<close> on
  non-negative values bounded by the length of an allocated slice, so they are modelled
  as \<open>nat\<close>. The field \<open>mod\<close> is named \<open>modn\<close> here. The zero value of \<open>T\<close>, which
  \<open>make\<close> fills a fresh slice with, is the parameter \<open>z\<close> of the operations.
\<close>

record 'a buffer =
  items :: "'a list"
  head :: nat
  tail :: nat
  modn :: nat

record 'a RingBuffer =
  len :: nat
  content :: "'a buffer"

text \<open>\<open>New(size)\<close>: \<open>make([]T, size)\<close> panics on a negative size.\<close>

definition New :: "'a \<Rightarrow> int \<Rightarrow> panic + 'a RingBuffer" where
  "New z sz =
     (if sz < 0 then Inl MakesliceLenOutOfRange
      else Inr \<lparr>len = 0,
                content = \<lparr>items = replicate (nat sz) z, head = 0, tail = 0, modn = nat sz\<rparr>\<rparr>)"

text \<open>
  The copy loop of \<open>Push\<close>: \<open>for i := 0; i < mod; i++ { newBuff[i] = items[(tail + i) % mod] }\<close>.
  It runs with \<open>tail\<close> already advanced. An index outside a slice panics.
\<close>

function copy_loop :: "'a buffer \<Rightarrow> nat \<Rightarrow> 'a list \<Rightarrow> panic + 'a list" where
  "copy_loop c i newBuff =
     (if i < modn c then
        (let idx = (tail c + i) mod modn c in
         if idx < length (items c) \<and> i < length newBuff
         then copy_loop c (Suc i) (newBuff[i := items c ! idx])
         else Inl IndexOutOfRange)
      else Inr newBuff)"
  by pat_completeness auto
termination
  by (relation "measure (\<lambda>(c, i, newBuff). modn c - i)") auto

declare copy_loop.simps [simp del]

text \<open>The branch of \<open>Push\<close> taken when the advanced tail meets the head.\<close>

definition grow :: "'a \<Rightarrow> 'a buffer \<Rightarrow> panic + 'a buffer" where
  "grow z c =
     (let sz = modn c * 2 in
      case copy_loop c 0 (replicate sz z) of
        Inl e \<Rightarrow> Inl e
      | Inr newBuff \<Rightarrow> Inr \<lparr>items = newBuff, head = 0, tail = modn c, modn = sz\<rparr>)"

text \<open>\<open>Push(item)\<close>. \<open>% rb.content.mod\<close> panics when \<open>mod\<close> is \<open>0\<close>.\<close>

definition Push :: "'a \<Rightarrow> 'a RingBuffer \<Rightarrow> 'a \<Rightarrow> panic + 'a RingBuffer" where
  "Push z rb item =
     (if modn (content rb) = 0 then Inl DivideByZero
      else
        let c1 = (content rb)\<lparr>tail := (tail (content rb) + 1) mod modn (content rb)\<rparr> in
        case (if tail c1 = head c1 then grow z c1 else Inr c1) of
          Inl e \<Rightarrow> Inl e
        | Inr c2 \<Rightarrow>
            if tail c2 < length (items c2)
            then Inr \<lparr>len = len rb + 1, content = c2\<lparr>items := (items c2)[tail c2 := item]\<rparr>\<rparr>
            else Inl IndexOutOfRange)"

definition Len :: "'a RingBuffer \<Rightarrow> nat" where
  "Len rb = len rb"

text \<open>
  \<open>Pop()\<close> returns the item, the flag and the buffer after the call; on an empty buffer
  the item is the zero value and the flag is false.
\<close>

definition Pop :: "'a \<Rightarrow> 'a RingBuffer \<Rightarrow> panic + ('a \<times> bool \<times> 'a RingBuffer)" where
  "Pop z rb =
     (if len rb = 0 then Inr (z, False, rb)
      else if modn (content rb) = 0 then Inl DivideByZero
      else
        let c1 = (content rb)\<lparr>head := (head (content rb) + 1) mod modn (content rb)\<rparr> in
        if head c1 < length (items c1)
        then Inr (items c1 ! head c1, True,
                  \<lparr>len = len rb - 1, content = c1\<lparr>items := (items c1)[head c1 := z]\<rparr>\<rparr>)
        else Inl IndexOutOfRange)"

text \<open>
  The loop of \<open>PopN\<close>:
  \<open>for i := 0; i < n; i++ { pos := (head + 1 + i) % mod; items[i] = content.items[pos]; content.items[pos] = t }\<close>.
\<close>

function popn_loop :: "'a \<Rightarrow> nat \<Rightarrow> nat \<Rightarrow> 'a buffer \<Rightarrow> 'a list \<Rightarrow> panic + ('a buffer \<times> 'a list)" where
  "popn_loop z n i c out =
     (if i < n then
        (if modn c = 0 then Inl DivideByZero
         else
           let pos = (head c + 1 + i) mod modn c in
           if pos < length (items c) \<and> i < length out
           then popn_loop z n (Suc i) (c\<lparr>items := (items c)[pos := z]\<rparr>) (out[i := items c ! pos])
           else Inl IndexOutOfRange)
      else Inr (c, out))"
  by pat_completeness auto
termination
  by (relation "measure (\<lambda>(z, n, i, c, out). n - i)") auto

declare popn_loop.simps [simp del]

text \<open>
  \<open>PopN(n)\<close> returns the slice (\<open>None\<close> for \<open>nil\<close>), the flag and the buffer after the
  call. The argument is the caller's \<open>int64\<close>: a negative \<open>n\<close> passes the test
  \<open>n >= rb.len\<close> unchanged and \<open>make([]T, n)\<close> panics.
\<close>

definition PopN :: "'a \<Rightarrow> 'a RingBuffer \<Rightarrow> int \<Rightarrow> panic + ('a list option \<times> bool \<times> 'a RingBuffer)" where
  "PopN z rb n0 =
     (if len rb = 0 then Inr (None, False, rb)
      else
        let n = (if n0 \<ge> int (len rb) then int (len rb) else n0) in
        if n < 0 then Inl MakesliceLenOutOfRange
        else
          case popn_loop z (nat n) 0 (content rb) (replicate (nat n) z) of
            Inl e \<Rightarrow> Inl e
          | Inr (c, out) \<Rightarrow>
              if modn c = 0 then Inl DivideByZero
              else Inr (Some out, True,
                        \<lparr>len = len rb - nat n, content = c\<lparr>head := (head c + nat n) mod modn c\<rparr>\<rparr>))"


subsection \<open>Invariant and abstraction of the ring buffer\<close>

text \<open>
  The live elements are the \<open>len\<close> slots after \<open>head\<close>, read with wrap-around:
  \<open>head\<close> is the slot before the oldest element and \<open>tail\<close> the slot of the newest.
  Every buffer built by \<open>New\<close> with a positive size and then changed by \<open>Push\<close>,
  \<open>Pop\<close> and \<open>PopN\<close> satisfies \<open>rb_inv\<close>.
\<close>

definition rb_inv :: "'a RingBuffer \<Rightarrow> bool" where
  "rb_inv rb =
     (0 < modn (content rb) \<and> length (items (content rb)) = modn (content rb) \<and>
      head (content rb) < modn (content rb) \<and> tail (content rb) < modn (content rb) \<and>
      len rb < modn (content rb) \<and>
      tail (content rb) = (head (content rb) + len rb) mod modn (content rb))"

definition live :: "'a RingBuffer \<Rightarrow> 'a list" where
  "live rb = map (\<lambda>i. items (content rb) ! ((head (content rb) + 1 + i) mod modn (content rb))) [0..<len rb]"

lemma copy_loop_eq:
  "length (items c) = modn c \<Longrightarrow> 0 < modn c \<Longrightarrow> modn c \<le> length nb \<Longrightarrow> i \<le> modn c \<Longrightarrow>
   copy_loop c i nb =
     Inr (take i nb @ map (\<lambda>j. items c ! ((tail c + j) mod modn c)) [i..<modn c] @ drop (modn c) nb)"
proof (induction c i nb rule: copy_loop.induct)
  case (1 c i nb)
  show ?case
  proof (cases "i < modn c")
    case True
    let ?v = "items c ! ((tail c + i) mod modn c)"
    have idx: "(tail c + i) mod modn c < length (items c)" using 1 by simp
    have il: "i < length nb" using True 1 by simp
    have step: "copy_loop c i nb = copy_loop c (Suc i) (nb[i := ?v])"
      using True idx il by (subst copy_loop.simps) (simp add: Let_def)
    have ih: "copy_loop c (Suc i) (nb[i := ?v]) =
      Inr (take (Suc i) (nb[i := ?v]) @ map (\<lambda>j. items c ! ((tail c + j) mod modn c)) [Suc i..<modn c] @ drop (modn c) (nb[i := ?v]))"
      using "1.IH"[OF True refl] idx il 1(2,3,4) True by simp
    have t: "take (Suc i) (nb[i := ?v]) = take i nb @ [?v]"
      using il by (simp add: take_Suc_conv_app_nth)
    have d: "drop (modn c) (nb[i := ?v]) = drop (modn c) nb"
      using True by simp
    have u: "[i..<modn c] = i # [Suc i..<modn c]" using True by (simp add: upt_conv_Cons)
    show ?thesis unfolding step ih t d u by simp
  next
    case False
    then have "i = modn c" using 1 by simp
    then show ?thesis by (subst copy_loop.simps) simp
  qed
qed


lemma live_nth: "i < len rb \<Longrightarrow> live rb ! i = items (content rb) ! ((head (content rb) + 1 + i) mod modn (content rb))"
  by (simp add: live_def)

lemma length_live [simp]: "length (live rb) = len rb"
  by (simp add: live_def)

lemma mod_eq_small:
  fixes a b m :: nat
  assumes "a mod m = b mod m" "a \<le> b" "b - a < m"
  shows "a = b"
proof -
  have "(b - a) mod m = 0" using assms(1,2) by (metis mod_eq_dvd_iff_nat dvd_imp_mod_0)
  then show ?thesis using assms by (simp add: mod_less)
qed

text \<open>Push when the buffer is not full.\<close>
lemma Push_room:
  assumes inv: "rb_inv rb" and nf: "(tail (content rb) + 1) mod modn (content rb) \<noteq> head (content rb)"
  shows "\<exists>rb'. Push z rb x = Inr rb' \<and> rb_inv rb' \<and> live rb' = live rb @ [x] \<and> modn (content rb') = modn (content rb)"
proof -
  let ?c = "content rb" let ?m = "modn ?c" let ?t = "(tail ?c + 1) mod ?m"
  let ?rb' = "\<lparr>len = len rb + 1, content = ?c\<lparr>tail := ?t, items := (items ?c)[?t := x]\<rparr>\<rparr>"
  have m: "0 < ?m" "length (items ?c) = ?m" "head ?c < ?m" "tail ?c < ?m" "len rb < ?m"
    "tail ?c = (head ?c + len rb) mod ?m" using inv by (auto simp: rb_inv_def)
  have t: "?t < ?m" using m by simp
  have P: "Push z rb x = Inr ?rb'"
    using m nf t by (simp add: Push_def Let_def)
  have teq: "?t = (head ?c + (len rb + 1)) mod ?m"
    using m(6) by (simp add: mod_Suc_eq)
  have lt: "len rb + 1 < ?m"
  proof (rule ccontr)
    assume "\<not> len rb + 1 < ?m"
    then have "len rb + 1 = ?m" using m(5) by simp
    then have "?t = head ?c" using teq m(3) by simp
    then show False using nf by simp
  qed
  have inv': "rb_inv ?rb'" using m t teq lt by (simp add: rb_inv_def)
  have "live ?rb' = live rb @ [x]"
  proof (rule nth_equalityI)
    show "length (live ?rb') = length (live rb @ [x])" by simp
  next
    fix i assume "i < length (live ?rb')"
    then have i: "i < len rb + 1" by simp
    show "live ?rb' ! i = (live rb @ [x]) ! i"
    proof (cases "i < len rb")
      case True
      have ne: "(head ?c + 1 + i) mod ?m \<noteq> ?t"
      proof
        assume e: "(head ?c + 1 + i) mod ?m = ?t"
        have "head ?c + 1 + i = head ?c + (len rb + 1)"
          by (rule mod_eq_small[OF e[unfolded teq]]) (use True m in auto)
        then show False using True by simp
      qed
      show ?thesis using True i ne m by (simp add: live_def nth_append)
    next
      case False
      then have ie: "i = len rb" using i by simp
      show ?thesis using ie m t teq by (simp add: live_def nth_append del: upt_Suc)
       qed
  qed
  then show ?thesis using P inv' by auto
qed


text \<open>Push when the advanced tail meets the head.\<close>
lemma Push_full:
  assumes inv: "rb_inv rb" and full: "(tail (content rb) + 1) mod modn (content rb) = head (content rb)"
  shows "Push z rb x =
           Inr \<lparr>len = len rb + 1,
                content = \<lparr>items = (items (content rb) ! head (content rb)) # live rb @ [x] @
                                     replicate (modn (content rb) - 1) z,
                           head = 0, tail = modn (content rb), modn = modn (content rb) * 2\<rparr>\<rparr>"
    and "len rb + 1 = modn (content rb)"
proof -
  let ?c = "content rb" let ?m = "modn ?c" let ?h = "head ?c"
  let ?c1 = "?c\<lparr>tail := ?h\<rparr>"
  have m: "0 < ?m" "length (items ?c) = ?m" "?h < ?m" "tail ?c < ?m" "len rb < ?m"
    "tail ?c = (?h + len rb) mod ?m" using inv by (auto simp: rb_inv_def)
  have e: "?h mod ?m = (?h + (len rb + 1)) mod ?m"
    using full m(6) m(3) by (simp add: mod_Suc_eq)
  show l: "len rb + 1 = ?m"
  proof (rule ccontr)
    assume "len rb + 1 \<noteq> ?m"
    then have "len rb + 1 < ?m" using m(5) by simp
    then have "?h = ?h + (len rb + 1)" by (intro mod_eq_small[OF e]) auto
    then show False by simp
  qed
  have cl: "copy_loop ?c1 0 (replicate (?m * 2) z) =
      Inr (map (\<lambda>j. items ?c ! ((?h + j) mod ?m)) [0..<?m] @ replicate ?m z)"
    using copy_loop_eq[of ?c1 "replicate (?m * 2) z" 0] m by simp
  have sp: "[0..<?m] = 0 # map Suc [0..<len rb]"
    using l by (metis Suc_eq_plus1 map_Suc_upt upt_conv_Cons zero_less_Suc)
  have mp: "map (\<lambda>j. items ?c ! ((?h + j) mod ?m)) [0..<?m] = (items ?c ! ?h) # live rb"
    unfolding sp using m(3) by (simp add: live_def comp_def)
  have g: "grow z ?c1 = Inr \<lparr>items = (items ?c ! ?h) # live rb @ replicate ?m z, head = 0, tail = ?m, modn = ?m * 2\<rparr>"
    using cl mp by (simp add: grow_def)
  have r: "((items ?c ! ?h) # live rb @ replicate ?m z)[?m := x] = (items ?c ! ?h) # live rb @ [x] @ replicate (?m - 1) z"
  proof -
    have "?m = Suc (len rb)" using l by simp
    moreover have "replicate ?m z = z # replicate (?m - 1) z" using m(1) by (cases ?m) auto
    ultimately show ?thesis by (simp add: list_update_append)
  qed
  show "Push z rb x =
           Inr \<lparr>len = len rb + 1,
                content = \<lparr>items = (items ?c ! ?h) # live rb @ [x] @ replicate (?m - 1) z,
                           head = 0, tail = ?m, modn = ?m * 2\<rparr>\<rparr>"
    using m full g r l by (simp add: Push_def Let_def)
qed


lemma Push_full_inv_live:
  assumes inv: "rb_inv rb" and full: "(tail (content rb) + 1) mod modn (content rb) = head (content rb)"
  shows "\<exists>rb'. Push z rb x = Inr rb' \<and> rb_inv rb' \<and> live rb' = live rb @ [x] \<and> modn (content rb') = modn (content rb) * 2"
proof -
  let ?m = "modn (content rb)"
  let ?rb' = "\<lparr>len = len rb + 1,
                content = \<lparr>items = (items (content rb) ! head (content rb)) # live rb @ [x] @
                                     replicate (?m - 1) z,
                           head = 0, tail = ?m, modn = ?m * 2\<rparr>\<rparr>"
  have P: "Push z rb x = Inr ?rb'" and l: "len rb + 1 = ?m"
    using Push_full[OF inv full] by auto
  have m: "0 < ?m" using inv by (simp add: rb_inv_def)
  have inv': "rb_inv ?rb'" using l m by (simp add: rb_inv_def)
  have "live ?rb' = live rb @ [x]"
  proof (rule nth_equalityI)
    show "length (live ?rb') = length (live rb @ [x])" by simp
  next
    fix i assume "i < length (live ?rb')"
    then have i: "i < len rb + 1" by simp
    then have "(1 + i) mod (?m * 2) = 1 + i" using l by simp
    then have "live ?rb' ! i = (live rb @ [x] @ replicate (?m - 1) z) ! i"
      using i by (simp add: live_def del: upt_Suc)
    also have "\<dots> = (live rb @ [x]) ! i" using i
      by (metis append.assoc length_append length_live nth_append length_Cons list.size(3) Suc_eq_plus1 One_nat_def)
    finally show "live ?rb' ! i = (live rb @ [x]) ! i" .
  qed
  then show ?thesis using P inv' by auto
qed

lemma Push_ok:
  assumes inv: "rb_inv rb"
  shows "\<exists>rb'. Push z rb x = Inr rb' \<and> rb_inv rb' \<and> live rb' = live rb @ [x]"
  using Push_room[OF inv, of z x] Push_full_inv_live[OF inv, of z x] by blast

lemma Pop_empty: "len rb = 0 \<Longrightarrow> Pop z rb = Inr (z, False, rb)"
  by (simp add: Pop_def)

lemma Pop_ok:
  assumes inv: "rb_inv rb" and ne: "0 < len rb"
  shows "\<exists>rb'. Pop z rb = Inr (hd (live rb), True, rb') \<and> rb_inv rb' \<and> live rb' = tl (live rb)"
proof -
  let ?c = "content rb" let ?m = "modn ?c" let ?h = "(head ?c + 1) mod ?m"
  let ?rb' = "\<lparr>len = len rb - 1, content = ?c\<lparr>head := ?h, items := (items ?c)[?h := z]\<rparr>\<rparr>"
  have m: "0 < ?m" "length (items ?c) = ?m" "head ?c < ?m" "tail ?c < ?m" "len rb < ?m"
    "tail ?c = (head ?c + len rb) mod ?m" using inv by (auto simp: rb_inv_def)
  have h: "?h < ?m" using m by simp
  have hd: "hd (live rb) = items ?c ! ?h"
    using ne by (simp add: live_def hd_map upt_conv_Cons)
  have P: "Pop z rb = Inr (hd (live rb), True, ?rb')"
    using ne m h hd by (simp add: Pop_def Let_def)
  have teq: "tail ?c = (?h + (len rb - 1)) mod ?m"
  proof -
    have "(?h + (len rb - 1)) mod ?m = (head ?c + 1 + (len rb - 1)) mod ?m"
      by (rule mod_add_left_eq)
    also have "head ?c + 1 + (len rb - 1) = head ?c + len rb" using ne by simp
    finally show ?thesis using m(6) by simp
  qed
  have inv': "rb_inv ?rb'" using m h teq ne by (simp add: rb_inv_def)
  have "live ?rb' = tl (live rb)"
  proof (rule nth_equalityI)
    show "length (live ?rb') = length (tl (live rb))" by simp
  next
    fix i assume "i < length (live ?rb')"
    then have i: "i < len rb - 1" by simp
    have pe: "(?h + 1 + i) mod ?m = (head ?c + 1 + Suc i) mod ?m"
    proof -
      have "(?h + 1 + i) mod ?m = (?h + (1 + i)) mod ?m" by (simp only: add.assoc)
      also have "\<dots> = (head ?c + 1 + (1 + i)) mod ?m" by (rule mod_add_left_eq)
      also have "head ?c + 1 + (1 + i) = head ?c + 1 + Suc i" by simp
      finally show ?thesis .
    qed
    have ne': "(head ?c + 1 + Suc i) mod ?m \<noteq> ?h"
    proof
      assume e: "(head ?c + 1 + Suc i) mod ?m = ?h"
      have "head ?c + 1 = head ?c + 1 + Suc i"
        by (rule mod_eq_small[OF e[symmetric]]) (use i m in auto)
      then show False by simp
    qed
    have "live ?rb' ! i = items ?c ! ((head ?c + 1 + Suc i) mod ?m)"
      using i ne' pe m by (simp add: live_def del: upt_Suc)
    also have "\<dots> = tl (live rb) ! i" using i by (simp add: nth_tl live_nth)
    finally show "live ?rb' ! i = tl (live rb) ! i" .
  qed
  then show ?thesis using P inv' by auto
qed


lemma pos_neq:
  fixes h i k m :: nat
  assumes "i < k" "k < i + m"
  shows "(h + 1 + k) mod m \<noteq> (h + 1 + i) mod m"
proof
  assume e: "(h + 1 + k) mod m = (h + 1 + i) mod m"
  have "h + 1 + i = h + 1 + k"
    by (rule mod_eq_small[OF e[symmetric]]) (use assms in auto)
  then show False using assms by simp
qed

lemma popn_loop_eq:
  "0 < modn c \<Longrightarrow> length (items c) = modn c \<Longrightarrow> n \<le> length out \<Longrightarrow> i \<le> n \<Longrightarrow> n \<le> i + modn c \<Longrightarrow>
   \<exists>c'. popn_loop z n i c out =
          Inr (c', take i out @ map (\<lambda>j. items c ! ((head c + 1 + j) mod modn c)) [i..<n] @ drop n out) \<and>
        head c' = head c \<and> tail c' = tail c \<and> modn c' = modn c \<and> length (items c') = modn c \<and>
        (\<forall>k. n \<le> k \<and> k < i + modn c \<longrightarrow>
             items c' ! ((head c + 1 + k) mod modn c) = items c ! ((head c + 1 + k) mod modn c))"
proof (induction z n i c out rule: popn_loop.induct)
  case (1 z n i c out)
  let ?m = "modn c"
  let ?pos = "\<lambda>j. (head c + 1 + j) mod ?m"
  show ?case
  proof (cases "i < n")
    case False
    then have "i = n" using 1 by simp
    then show ?thesis using 1(3) by (subst popn_loop.simps) simp
  next
    case True
    let ?c1 = "c\<lparr>items := (items c)[?pos i := z]\<rparr>"
    let ?o1 = "out[i := items c ! ?pos i]"
    have mne: "modn c \<noteq> 0" using 1 by simp
    have p: "?pos i < length (items c)" using 1 by simp
    have il: "i < length out" using True 1 by simp
    have step: "popn_loop z n i c out = popn_loop z n (Suc i) ?c1 ?o1"
      using True p il mne by (subst popn_loop.simps) (simp add: Let_def)
    from "1.IH"[OF True mne refl] p il 1(2-6) True
    obtain c' where ih:
      "popn_loop z n (Suc i) ?c1 ?o1 =
          Inr (c', take (Suc i) ?o1 @ map (\<lambda>j. items ?c1 ! ?pos j) [Suc i..<n] @ drop n ?o1)"
      "head c' = head c" "tail c' = tail c" "modn c' = ?m" "length (items c') = ?m"
      "\<forall>k. n \<le> k \<and> k < Suc i + ?m \<longrightarrow> items c' ! ?pos k = items ?c1 ! ?pos k"
      by auto
    have t: "take (Suc i) ?o1 = take i out @ [items c ! ?pos i]"
      using il by (simp add: take_Suc_conv_app_nth)
    have d: "drop n ?o1 = drop n out" using True by simp
    have u: "[i..<n] = i # [Suc i..<n]" using True by (simp add: upt_conv_Cons)
    have mp: "map (\<lambda>j. items ?c1 ! ?pos j) [Suc i..<n] = map (\<lambda>j. items c ! ?pos j) [Suc i..<n]"
    proof (rule map_cong[OF refl])
      fix j assume "j \<in> set [Suc i..<n]"
      then have "i < j" "j < i + ?m" using 1(6) by auto
      then have "?pos j \<noteq> ?pos i" by (rule pos_neq)
      then show "items ?c1 ! ?pos j = items c ! ?pos j" by simp
    qed
    have keep: "\<forall>k. n \<le> k \<and> k < i + ?m \<longrightarrow> items c' ! ?pos k = items c ! ?pos k"
    proof (intro allI impI)
      fix k assume k: "n \<le> k \<and> k < i + ?m"
      then have "items c' ! ?pos k = items ?c1 ! ?pos k" using ih(6) by simp
      moreover have "?pos k \<noteq> ?pos i" by (rule pos_neq) (use k True in auto)
      ultimately show "items c' ! ?pos k = items c ! ?pos k" by simp
    qed
    show ?thesis
      unfolding step ih(1) t d u mp using ih(2-5) keep by simp
  qed
qed

lemma PopN_empty: "len rb = 0 \<Longrightarrow> PopN z rb n = Inr (None, False, rb)"
  by (simp add: PopN_def)

lemma PopN_negative: "0 < len rb \<Longrightarrow> n < 0 \<Longrightarrow> PopN z rb n = Inl MakesliceLenOutOfRange"
  by (simp add: PopN_def Let_def)

lemma PopN_ok:
  assumes inv: "rb_inv rb" and ne: "0 < len rb" and n0: "0 \<le> n0"
  shows "\<exists>rb'. PopN z rb n0 = Inr (Some (take (nat n0) (live rb)), True, rb') \<and>
               rb_inv rb' \<and> live rb' = drop (nat n0) (live rb)"
proof -
  let ?c = "content rb" let ?m = "modn ?c"
  let ?n = "if n0 \<ge> int (len rb) then len rb else nat n0"
  let ?pos = "\<lambda>j. (head ?c + 1 + j) mod ?m"
  have m: "0 < ?m" "length (items ?c) = ?m" "head ?c < ?m" "tail ?c < ?m" "len rb < ?m"
    "tail ?c = (head ?c + len rb) mod ?m" using inv by (auto simp: rb_inv_def)
  have nle: "?n \<le> len rb" using n0 by auto
  from popn_loop_eq[of ?c ?n "replicate ?n z" 0 z] m nle
  obtain c' where L:
    "popn_loop z ?n 0 ?c (replicate ?n z) = Inr (c', map (\<lambda>j. items ?c ! ?pos j) [0..<?n])"
    "head c' = head ?c" "tail c' = tail ?c" "modn c' = ?m" "length (items c') = ?m"
    "\<forall>k. ?n \<le> k \<and> k < ?m \<longrightarrow> items c' ! ?pos k = items ?c ! ?pos k"
    by auto
  have tk: "map (\<lambda>j. items ?c ! ?pos j) [0..<?n] = take (nat n0) (live rb)"
    using nle n0 by (auto simp: live_def take_map)
  let ?rb' = "\<lparr>len = len rb - ?n, content = c'\<lparr>head := (head c' + ?n) mod modn c'\<rparr>\<rparr>"
  have P: "PopN z rb n0 = Inr (Some (take (nat n0) (live rb)), True, ?rb')"
  proof (cases "n0 \<ge> int (len rb)")
    case True
    then show ?thesis using ne L(1,4) tk m(1) by (simp add: PopN_def Let_def)
  next
    case False
    then show ?thesis using ne n0 L(1,4) tk m(1) by (simp add: PopN_def Let_def)
  qed
  have teq: "tail ?c = ((head ?c + ?n) mod ?m + (len rb - ?n)) mod ?m"
  proof -
    have "((head ?c + ?n) mod ?m + (len rb - ?n)) mod ?m = (head ?c + ?n + (len rb - ?n)) mod ?m"
      by (rule mod_add_left_eq)
    also have "head ?c + ?n + (len rb - ?n) = head ?c + len rb" using nle by simp
    finally show ?thesis using m(6) by simp
  qed
  have inv': "rb_inv ?rb'" using m L(2-5) teq by (simp add: rb_inv_def)
  have "live ?rb' = drop (nat n0) (live rb)"
  proof (rule nth_equalityI)
    show "length (live ?rb') = length (drop (nat n0) (live rb))" using n0 by auto
  next
    fix i assume "i < length (live ?rb')"
    then have i: "i < len rb - ?n" by simp
    have pe: "((head ?c + ?n) mod ?m + 1 + i) mod ?m = ?pos (?n + i)"
    proof -
      have "((head ?c + ?n) mod ?m + 1 + i) mod ?m = ((head ?c + ?n) mod ?m + (1 + i)) mod ?m"
        by (simp only: add.assoc)
      also have "\<dots> = (head ?c + ?n + (1 + i)) mod ?m" by (rule mod_add_left_eq)
      also have "head ?c + ?n + (1 + i) = head ?c + 1 + (?n + i)" by simp
      finally show ?thesis .
    qed
    have "live ?rb' ! i = items c' ! ?pos (?n + i)"
      using i pe L(2,4) by (simp add: live_nth)
    also have "\<dots> = items ?c ! ?pos (?n + i)" using L(6) i m(5) by simp
    also have "\<dots> = live rb ! (?n + i)" using i by (simp add: live_nth)
    also have "\<dots> = drop (nat n0) (live rb) ! i" using i n0 nle by auto
    finally show "live ?rb' ! i = drop (nat n0) (live rb) ! i" .
  qed
  then show ?thesis using P inv' by auto
qed


subsection \<open>Runs of operations and the functional FIFO queue\<close>

text \<open>
  A run applies a list of calls to a ring buffer and collects what each call returns.
  \<open>fifo_step\<close> and \<open>fifo_run\<close> are the functional FIFO queue the ring buffer is
  compared with: a list, pushed at the back and popped at the front.
\<close>

datatype 'a rb_op = OpPush 'a | OpPop | OpPopN int

datatype 'a rb_ret = RetPush | RetPop 'a bool | RetPopN "'a list option" bool

definition rb_step :: "'a \<Rightarrow> 'a RingBuffer \<Rightarrow> 'a rb_op \<Rightarrow> panic + ('a rb_ret \<times> 'a RingBuffer)" where
  "rb_step z rb op =
     (case op of
        OpPush x \<Rightarrow> (case Push z rb x of Inl e \<Rightarrow> Inl e | Inr rb' \<Rightarrow> Inr (RetPush, rb'))
      | OpPop \<Rightarrow> (case Pop z rb of Inl e \<Rightarrow> Inl e | Inr (x, ok, rb') \<Rightarrow> Inr (RetPop x ok, rb'))
      | OpPopN n \<Rightarrow> (case PopN z rb n of Inl e \<Rightarrow> Inl e | Inr (xs, ok, rb') \<Rightarrow> Inr (RetPopN xs ok, rb')))"

fun rb_run :: "'a \<Rightarrow> 'a RingBuffer \<Rightarrow> 'a rb_op list \<Rightarrow> panic + ('a rb_ret list \<times> 'a RingBuffer)" where
  "rb_run z rb [] = Inr ([], rb)"
| "rb_run z rb (op # ops) =
     (case rb_step z rb op of
        Inl e \<Rightarrow> Inl e
      | Inr (r, rb') \<Rightarrow>
          (case rb_run z rb' ops of Inl e \<Rightarrow> Inl e | Inr (rs, rb'') \<Rightarrow> Inr (r # rs, rb'')))"

definition fifo_step :: "'a \<Rightarrow> 'a list \<Rightarrow> 'a rb_op \<Rightarrow> 'a rb_ret \<times> 'a list" where
  "fifo_step z q op =
     (case op of
        OpPush x \<Rightarrow> (RetPush, q @ [x])
      | OpPop \<Rightarrow> (case q of [] \<Rightarrow> (RetPop z False, []) | x # q' \<Rightarrow> (RetPop x True, q'))
      | OpPopN n \<Rightarrow>
          (case q of [] \<Rightarrow> (RetPopN None False, [])
           | x # q' \<Rightarrow> (RetPopN (Some (take (nat n) q)) True, drop (nat n) q)))"

fun fifo_run :: "'a \<Rightarrow> 'a list \<Rightarrow> 'a rb_op list \<Rightarrow> 'a rb_ret list \<times> 'a list" where
  "fifo_run z q [] = ([], q)"
| "fifo_run z q (op # ops) =
     (let (r, q') = fifo_step z q op; (rs, q'') = fifo_run z q' ops in (r # rs, q''))"

fun popn_arg_ok :: "'a rb_op \<Rightarrow> bool" where
  "popn_arg_ok (OpPopN n) = (0 \<le> n)"
| "popn_arg_ok _ = True"

lemma rb_step_fifo:
  assumes inv: "rb_inv rb" and ok: "popn_arg_ok op"
  shows "\<exists>rb'. rb_step z rb op = Inr (fst (fifo_step z (live rb) op), rb') \<and> rb_inv rb' \<and>
               live rb' = snd (fifo_step z (live rb) op)"
proof (cases op)
  case (OpPush x)
  then show ?thesis using Push_ok[OF inv, of z x] by (auto simp: rb_step_def fifo_step_def)
next
  case OpPop
  show ?thesis
  proof (cases "len rb = 0")
    case True
    then have "live rb = []" by (simp add: live_def)
    then show ?thesis using OpPop True inv by (simp add: rb_step_def fifo_step_def Pop_empty)
  next
    case False
    then obtain y ys where l: "live rb = y # ys" by (cases "live rb") (auto simp: live_def)
    from False Pop_ok[OF inv, of z] show ?thesis using OpPop l
      by (auto simp: rb_step_def fifo_step_def)
  qed
next
  case (OpPopN n)
  show ?thesis
  proof (cases "len rb = 0")
    case True
    then have "live rb = []" by (simp add: live_def)
    then show ?thesis using OpPopN True inv by (simp add: rb_step_def fifo_step_def PopN_empty)
  next
    case False
    then obtain y ys where l: "live rb = y # ys" by (cases "live rb") (auto simp: live_def)
    have "0 \<le> n" using ok OpPopN by simp
    from PopN_ok[OF inv _ this, of z] False show ?thesis using OpPopN l
      by (auto simp: rb_step_def fifo_step_def)
  qed
qed

lemma rb_run_fifo:
  "rb_inv rb \<Longrightarrow> list_all popn_arg_ok ops \<Longrightarrow>
   \<exists>rb'. rb_run z rb ops = Inr (fst (fifo_run z (live rb) ops), rb') \<and> rb_inv rb' \<and>
         live rb' = snd (fifo_run z (live rb) ops)"
proof (induction ops arbitrary: rb)
  case Nil
  then show ?case by simp
next
  case (Cons op ops)
  from rb_step_fifo[OF Cons.prems(1), of op z] Cons.prems(2)
  obtain rb1 where s: "rb_step z rb op = Inr (fst (fifo_step z (live rb) op), rb1)" "rb_inv rb1"
    "live rb1 = snd (fifo_step z (live rb) op)" by auto
  from Cons.IH[OF s(2)] Cons.prems(2)
  obtain rb2 where r: "rb_run z rb1 ops = Inr (fst (fifo_run z (live rb1) ops), rb2)" "rb_inv rb2"
    "live rb2 = snd (fifo_run z (live rb1) ops)" by auto
  show ?case using s r by (simp add: split_def Let_def)
qed

lemma New_inv: "0 < sz \<Longrightarrow> \<exists>rb. New z sz = Inr rb \<and> rb_inv rb \<and> live rb = []"
  by (simp add: New_def rb_inv_def live_def)

text \<open>
  Claim C8. A ring buffer made by \<open>New\<close> with a positive size, driven by any sequence of
  \<open>Push\<close>, \<open>Pop\<close> and \<open>PopN\<close> calls (\<open>PopN\<close> with a non-negative count), never
  panics and returns exactly what the functional FIFO queue returns on the same calls:
  elements come out in the order they were pushed, across any number of capacity
  doublings, and \<open>Pop\<close> and \<open>PopN\<close> on an empty buffer return false.
\<close>

theorem RingBuffer_is_fifo:
  assumes "0 < sz" and "list_all popn_arg_ok ops"
  shows "\<exists>rb rb'. New z sz = Inr rb \<and> rb_run z rb ops = Inr (fst (fifo_run z [] ops), rb') \<and>
                  live rb' = snd (fifo_run z [] ops)"
proof -
  from New_inv[OF assms(1), of z] obtain rb where n: "New z sz = Inr rb" "rb_inv rb" "live rb = []"
    by auto
  from rb_run_fifo[OF n(2) assms(2), of z] n(3) show ?thesis using n(1) by auto
qed

theorem RingBuffer_is_fifo_witness:
  "0 < (2::int) \<and>
   list_all popn_arg_ok [OpPush 1, OpPush 2, OpPush (3::nat), OpPopN 2, OpPop, OpPop] \<and>
   (\<exists>rb rb'. New 0 2 = Inr rb \<and>
      rb_run 0 rb [OpPush 1, OpPush 2, OpPush (3::nat), OpPopN 2, OpPop, OpPop] =
        Inr ([RetPush, RetPush, RetPush, RetPopN (Some [1, 2]) True, RetPop 3 True, RetPop 0 False], rb') \<and>
      live rb' = [])"
  using RingBuffer_is_fifo[of 2 "[OpPush 1, OpPush 2, OpPush (3::nat), OpPopN 2, OpPop, OpPop]" 0]
  by (simp add: fifo_step_def)

text \<open>
  Claim C4, as the code has it. A \<open>Push\<close> whose advanced tail meets the head doubles the
  capacity and resets \<open>head\<close> to \<open>0\<close>; the buffer then holds \<open>n = mod - 1\<close> live
  elements, which are copied oldest first to the offsets \<open>1 .. n\<close> of the fresh slice
  (offset \<open>0\<close> receives the vacant slot \<open>head\<close> pointed at), and the pushed element is
  stored at offset \<open>n + 1\<close>, the old capacity.
\<close>

theorem Push_full_layout:
  assumes "rb_inv rb" and "(tail (content rb) + 1) mod modn (content rb) = head (content rb)"
  shows "\<exists>rb'. Push z rb x = Inr rb' \<and>
           modn (content rb') = 2 * modn (content rb) \<and>
           length (items (content rb')) = 2 * modn (content rb) \<and>
           len rb + 1 = modn (content rb) \<and>
           head (content rb') = 0 \<and>
           items (content rb') ! 0 = items (content rb) ! head (content rb) \<and>
           take (len rb) (drop 1 (items (content rb'))) = live rb \<and>
           items (content rb') ! (len rb + 1) = x \<and>
           tail (content rb') = len rb + 1 \<and>
           len rb' = len rb + 1 \<and>
           live rb' = live rb @ [x]"
proof -
  let ?m = "modn (content rb)"
  let ?rb' = "\<lparr>len = len rb + 1,
                content = \<lparr>items = (items (content rb) ! head (content rb)) # live rb @ [x] @
                                     replicate (?m - 1) z,
                           head = 0, tail = ?m, modn = ?m * 2\<rparr>\<rparr>"
  have P: "Push z rb x = Inr ?rb'" and l: "len rb + 1 = ?m"
    using Push_full[OF assms] by auto
  from Push_full_inv_live[OF assms, of z x] P have lv: "live ?rb' = live rb @ [x]" by simp
  have n: "((items (content rb) ! head (content rb)) # live rb @ [x] @ replicate (?m - 1) z) ! (len rb + 1) = x"
    by (simp add: nth_append)
  show ?thesis using P l lv n by simp
qed

theorem Push_full_layout_witness:
  "rb_inv \<lparr>len = 1, content = \<lparr>items = [0, 7::nat], head = 0, tail = 1, modn = 2\<rparr>\<rparr> \<and>
   (tail (content \<lparr>len = 1, content = \<lparr>items = [0, 7::nat], head = 0, tail = 1, modn = 2\<rparr>\<rparr>) + 1) mod 2 = 0 \<and>
   (\<exists>rb'. Push 0 \<lparr>len = 1, content = \<lparr>items = [0, 7::nat], head = 0, tail = 1, modn = 2\<rparr>\<rparr> 8 = Inr rb' \<and>
      modn (content rb') = 4 \<and> head (content rb') = 0 \<and> tail (content rb') = 2 \<and>
      take 1 (drop 1 (items (content rb'))) = [7] \<and> items (content rb') ! 2 = 8)"
proof -
  let ?R = "\<lparr>len = 1, content = \<lparr>items = [0, 7::nat], head = 0, tail = 1, modn = 2\<rparr>\<rparr>"
  have i: "rb_inv ?R" by (simp add: rb_inv_def)
  have f: "(tail (content ?R) + 1) mod modn (content ?R) = head (content ?R)" by simp
  have l: "live ?R = [7]" by (simp add: live_def)
  from Push_full_layout[OF i f, of 0 8] show ?thesis using i l by (auto simp: numeral_2_eq_2)
qed

text \<open>
  The live element of a full buffer of capacity \<open>2\<close> is not copied to offset \<open>0\<close>:
  after \<open>New(2)\<close>, \<open>Push(7)\<close>, \<open>Push(8)\<close> the slice is \<open>[0, 7, 8, 0]\<close>.
\<close>

theorem Push_full_offsets_counterexample:
  "New (0::nat) 2 = Inr \<lparr>len = 0, content = \<lparr>items = [0, 0], head = 0, tail = 0, modn = 2\<rparr>\<rparr> \<and>
   Push 0 \<lparr>len = 0, content = \<lparr>items = [0, 0::nat], head = 0, tail = 0, modn = 2\<rparr>\<rparr> 7 =
     Inr \<lparr>len = 1, content = \<lparr>items = [0, 7], head = 0, tail = 1, modn = 2\<rparr>\<rparr> \<and>
   Push 0 \<lparr>len = 1, content = \<lparr>items = [0, 7::nat], head = 0, tail = 1, modn = 2\<rparr>\<rparr> 8 =
     Inr \<lparr>len = 2, content = \<lparr>items = [0, 7, 8, 0], head = 0, tail = 2, modn = 4\<rparr>\<rparr> \<and>
   live \<lparr>len = 1, content = \<lparr>items = [0, 7::nat], head = 0, tail = 1, modn = 2\<rparr>\<rparr> = [7] \<and>
   take 1 [0, 7, 8, 0::nat] \<noteq> [7] \<and> [0, 7, 8, 0::nat] ! 1 \<noteq> 8"
  by code_simp

section \<open>actor: process identifiers, messages and options\<close>

text \<open>\<open>PID\<close> (actor/registry.go): the pair of an address and an id.\<close>

record PID =
  Address :: string
  ID :: string

definition NewPID :: "string \<Rightarrow> string \<Rightarrow> PID" where
  "NewPID address ident = \<lparr>Address = address, ID = ident\<rparr>"

definition Equals :: "PID \<Rightarrow> PID \<Rightarrow> bool" where
  "Equals pid other = (Address pid = Address other \<and> ID pid = ID other)"

text \<open>
  \<open>LookupKey\<close> hashes the bytes of the address followed by the bytes of the id.
  \<open>xxh3.Hash\<close> is a library function outside the repository: it is the parameter
  \<open>xxh3\<close>.
\<close>

definition LookupKey :: "(string \<Rightarrow> 64 word) \<Rightarrow> PID \<Rightarrow> 64 word" where
  "LookupKey xxh3 pid = xxh3 (Address pid @ ID pid)"

text \<open>
  Messages are values of Go's \<open>any\<close>. The datatype lists the message types of the
  repository that the modelled functions build or inspect, and \<open>UserMsg\<close> for every
  other payload. Timestamps and stack traces of events are left out. \<open>streamDeliver\<close>
  is the struct of the remote package (fields \<open>sender\<close>, \<open>target\<close>, \<open>msg\<close>); the cancel
  function of a \<open>poisonPill\<close> is seen through its effect only.
\<close>

datatype 'm streamDeliver =
  streamDeliver (sd_sender: "PID option") (sd_target: "PID option") (sd_msg: 'm)

datatype pvalue = InternalError | RuntimeError panic | OtherValue

datatype 'a message =
    UserMsg 'a
  | Initialized
  | Started
  | Stopped
  | poisonPill bool
  | StreamDeliver "'a message streamDeliver"
  | ActorInitializedEvent PID
  | ActorStartedEvent PID
  | ActorStoppedEvent PID
  | ActorRestartedEvent PID pvalue "32 word"
  | ActorMaxRestartsExceededEvent PID
  | ActorDuplicateIdEvent PID
  | EngineRemoteMissingEvent "PID option" "PID option" "'a message"
  | DeadLetterEvent "PID option" "'a message" "PID option"

record 'm Envelope =
  Msg :: 'm
  Sender :: "PID option"

text \<open>
  A receiver is user code. Its state is a value of \<open>'s\<close>; a \<open>ReceiveFunc\<close> gets the
  receiver, the message and the sender of the context and either returns or panics with
  a value, in both cases leaving a receiver state behind. A \<open>Producer\<close> yields the fresh
  state.
\<close>

datatype 's rres = Returns 's | Panics pvalue 's

type_synonym ('a, 's) ReceiveFunc = "'s \<Rightarrow> 'a message \<Rightarrow> PID option \<Rightarrow> 's rres"

text \<open>\<open>Opts\<close> (actor/opts.go), without the restart delay and the Go context.\<close>

record ('a, 's) Opts =
  Producer :: 's
  Opts_Kind :: string
  Opts_ID :: string
  MaxRestarts :: "32 word"
  InboxSize :: int
  Middleware :: "(('a, 's) ReceiveFunc \<Rightarrow> ('a, 's) ReceiveFunc) list"

definition DefaultOpts :: "'s \<Rightarrow> ('a, 's) Opts" where
  "DefaultOpts p =
     \<lparr>Producer = p, Opts_Kind = [], Opts_ID = [], MaxRestarts = 3, InboxSize = 1024, Middleware = []\<rparr>"

definition WithID :: "string \<Rightarrow> ('a, 's) Opts \<Rightarrow> ('a, 's) Opts" where
  "WithID ident opts = opts\<lparr>Opts_ID := ident\<rparr>"

definition WithInboxSize :: "int \<Rightarrow> ('a, 's) Opts \<Rightarrow> ('a, 's) Opts" where
  "WithInboxSize sz opts = opts\<lparr>InboxSize := sz\<rparr>"

definition WithMaxRestarts :: "int \<Rightarrow> ('a, 's) Opts \<Rightarrow> ('a, 's) Opts" where
  "WithMaxRestarts n opts = opts\<lparr>MaxRestarts := word_of_int n\<rparr>"

section \<open>actor/engine.go and actor/registry.go\<close>

text \<open>
  A \<open>Processer\<close> is an interface value: a reference to a process object, and its
  \<open>PID()\<close>. The registry maps an id to a processer. \<open>Processer.Send\<close> is an interface
  method; the three implementations of the repository (\<open>process\<close>, \<open>streamWriter\<close>,
  \<open>Response\<close>) hand the envelope to the processer's own mailbox, so the engine state
  holds, for every reference, the list of envelopes sent to it, in order.
  \<open>Processer.Start\<close> is an interface method too: it is the parameter \<open>Start\<close> of
  \<open>Registry_add\<close>.

  \<open>Remoter\<close> is an interface; its implementation in the repository is \<open>remote.Remote\<close>,
  whose \<open>engine\<close> field is the engine it was started with.
\<close>

record Processer =
  proc_ref :: nat
  proc_PID :: PID

record Remote =
  addr :: string
  streamRouterPID :: "PID option"

record 'a Engine =
  lookup :: "string \<rightharpoonup> Processer"
  address :: string
  remote :: "Remote option"
  eventStream :: "PID option"
  mailbox :: "nat \<Rightarrow> 'a message Envelope list"

definition Registry_get :: "'a Engine \<Rightarrow> PID option \<Rightarrow> Processer option" where
  "Registry_get e pid = (case pid of None \<Rightarrow> None | Some p \<Rightarrow> lookup e (ID p))"

definition isLocalMessage :: "'a Engine \<Rightarrow> PID option \<Rightarrow> bool" where
  "isLocalMessage e pid = (case pid of None \<Rightarrow> False | Some p \<Rightarrow> address e = Address p)"

definition Processer_Send :: "'a Engine \<Rightarrow> Processer \<Rightarrow> 'a message \<Rightarrow> PID option \<Rightarrow> 'a Engine" where
  "Processer_Send e proc msg sender =
     e\<lparr>mailbox := (mailbox e)(proc_ref proc := mailbox e (proc_ref proc) @ [\<lparr>Msg = msg, Sender = sender\<rparr>])\<rparr>"

text \<open>
  \<open>send\<close>, \<open>SendLocal\<close>, \<open>BroadcastEvent\<close> and \<open>Remote.Send\<close> call each other:
  a dead letter is itself sent to the event stream. Nothing in the code bounds this
  recursion, so the functions take the call depth still available as fuel and return
  \<open>None\<close> when it is used up.
\<close>

function send :: "nat \<Rightarrow> 'a Engine \<Rightarrow> PID option \<Rightarrow> 'a message \<Rightarrow> PID option \<Rightarrow> 'a Engine option"
  and SendLocal :: "nat \<Rightarrow> 'a Engine \<Rightarrow> PID option \<Rightarrow> 'a message \<Rightarrow> PID option \<Rightarrow> 'a Engine option"
  and BroadcastEvent :: "nat \<Rightarrow> 'a Engine \<Rightarrow> 'a message \<Rightarrow> 'a Engine option"
  and Remote_Send :: "nat \<Rightarrow> 'a Engine \<Rightarrow> Remote \<Rightarrow> PID option \<Rightarrow> 'a message \<Rightarrow> PID option \<Rightarrow> 'a Engine option"
where
  "send fuel e pid msg sender =
     (case fuel of
        0 \<Rightarrow> None
      | Suc n \<Rightarrow>
          if pid = None then Some e
          else if isLocalMessage e pid then SendLocal n e pid msg sender
          else (case remote e of
                  None \<Rightarrow> BroadcastEvent n e (EngineRemoteMissingEvent pid sender msg)
                | Some r \<Rightarrow> Remote_Send n e r pid msg sender))"
| "SendLocal n e pid msg sender =
     (case Registry_get e pid of
        None \<Rightarrow> BroadcastEvent n e (DeadLetterEvent pid msg sender)
      | Some proc \<Rightarrow> Some (Processer_Send e proc msg sender))"
| "BroadcastEvent n e msg =
     (if eventStream e \<noteq> None then send n e (eventStream e) msg None else Some e)"
| "Remote_Send n e r pid msg sender =
     send n e (streamRouterPID r) (StreamDeliver (streamDeliver sender pid msg)) None"
  by pat_completeness auto
termination
  by (relation "measure (\<lambda>x. case x of
          Inl (Inl (n, _)) \<Rightarrow> 3 * n
        | Inl (Inr (n, _)) \<Rightarrow> 3 * n + 2
        | Inr (Inl (n, _)) \<Rightarrow> 3 * n + 1
        | Inr (Inr (n, _)) \<Rightarrow> 3 * n + 1)") auto


declare send.simps [simp del]

definition SendWithSender :: "nat \<Rightarrow> 'a Engine \<Rightarrow> PID option \<Rightarrow> 'a message \<Rightarrow> PID option \<Rightarrow> 'a Engine option" where
  "SendWithSender n e pid msg sender = send n e pid msg sender"

definition Send :: "nat \<Rightarrow> 'a Engine \<Rightarrow> PID option \<Rightarrow> 'a message \<Rightarrow> 'a Engine option" where
  "Send n e pid msg = send n e pid msg None"

definition Registry_add ::
  "(Processer \<Rightarrow> 'a Engine \<Rightarrow> 'a Engine option) \<Rightarrow> nat \<Rightarrow> 'a Engine \<Rightarrow> Processer \<Rightarrow> 'a Engine option" where
  "Registry_add Start n e proc =
     (let ident = ID (proc_PID proc) in
      case lookup e ident of
        Some incumbent \<Rightarrow> BroadcastEvent n e (ActorDuplicateIdEvent (proc_PID proc))
      | None \<Rightarrow> Start proc (e\<lparr>lookup := (lookup e)(ident \<mapsto> proc)\<rparr>))"

definition SpawnProc ::
  "(Processer \<Rightarrow> 'a Engine \<Rightarrow> 'a Engine option) \<Rightarrow> nat \<Rightarrow> 'a Engine \<Rightarrow> Processer
     \<Rightarrow> ('a Engine \<times> PID) option" where
  "SpawnProc Start n e p =
     (case Registry_add Start n e p of None \<Rightarrow> None | Some e' \<Rightarrow> Some (e', proc_PID p))"

text \<open>
  \<open>Spawn\<close>: the options are the defaults for the producer, with the kind, overlaid by the
  caller's option functions in order; an empty id is replaced by a random decimal string
  (the parameter \<open>rnd\<close>). \<open>newProcess\<close> allocates the process (the fresh reference
  is the parameter \<open>h\<close>) and its inbox, whose ring buffer is made by
  \<open>make([]T, InboxSize)\<close>, which panics on a negative size.
\<close>

definition spawn_options :: "string \<Rightarrow> 's \<Rightarrow> string \<Rightarrow> (('a, 's) Opts \<Rightarrow> ('a, 's) Opts) list \<Rightarrow> ('a, 's) Opts" where
  "spawn_options rnd p kind opts =
     (let options = foldl (\<lambda>options opt. opt options) ((DefaultOpts p)\<lparr>Opts_Kind := kind\<rparr>) opts
      in if length (Opts_ID options) = 0 then options\<lparr>Opts_ID := rnd\<rparr> else options)"

definition newProcess :: "'a Engine \<Rightarrow> ('a, 's) Opts \<Rightarrow> nat \<Rightarrow> panic + Processer" where
  "newProcess e opts h =
     (if InboxSize opts < 0 then Inl MakesliceLenOutOfRange
      else Inr \<lparr>proc_ref = h, proc_PID = NewPID (address e) (Opts_Kind opts @ ''/'' @ Opts_ID opts)\<rparr>)"

definition Spawn ::
  "(Processer \<Rightarrow> 'a Engine \<Rightarrow> 'a Engine option) \<Rightarrow> nat \<Rightarrow> 'a Engine \<Rightarrow> nat \<Rightarrow> string \<Rightarrow> 's \<Rightarrow> string
     \<Rightarrow> (('a, 's) Opts \<Rightarrow> ('a, 's) Opts) list \<Rightarrow> panic + ('a Engine \<times> PID) option" where
  "Spawn Start n e h rnd p kind opts =
     (case newProcess e (spawn_options rnd p kind opts) h of
        Inl err \<Rightarrow> Inl err
      | Inr proc \<Rightarrow> Inr (SpawnProc Start n e proc))"

subsection \<open>Routing of a send\<close>

lemma send_nil: "send (Suc n) e None msg sender = Some e"
  by (simp add: send.simps)

lemma SendLocal_hit:
  "lookup e (ID p) = Some proc \<Longrightarrow> SendLocal n e (Some p) msg sender = Some (Processer_Send e proc msg sender)"
  by (simp add: Registry_get_def)

lemma send_local_hit:
  "Address p = address e \<Longrightarrow> lookup e (ID p) = Some proc \<Longrightarrow>
   send (Suc n) e (Some p) msg sender = Some (Processer_Send e proc msg sender)"
  by (simp add: send.simps isLocalMessage_def Registry_get_def)

lemma BroadcastEvent_delivers:
  "eventStream e = Some es \<Longrightarrow> Address es = address e \<Longrightarrow> lookup e (ID es) = Some esp \<Longrightarrow>
   BroadcastEvent (Suc n) e ev = Some (Processer_Send e esp ev None)"
  by (simp add: send_local_hit)

lemma BroadcastEvent_no_stream: "eventStream e = None \<Longrightarrow> BroadcastEvent n e ev = Some e"
  by simp

text \<open>
  When the event stream's own process is not registered, a broadcast is a dead letter
  whose dead letter is broadcast in turn: the call never returns.
\<close>

lemma BroadcastEvent_diverges:
  "eventStream e = Some es \<Longrightarrow> Address es = address e \<Longrightarrow> lookup e (ID es) = None \<Longrightarrow>
   BroadcastEvent n e ev = None"
proof (induction n arbitrary: ev)
  case 0
  then show ?case by (simp add: send.simps)
next
  case (Suc n)
  then show ?case by (simp add: send.simps[of "Suc n"] isLocalMessage_def Registry_get_def)
qed

text \<open>
  Claim C1. In an engine whose event stream is its own registered process (as
  \<open>NewEngine\<close> leaves it): a send to a nil PID changes nothing; a send to a local PID
  with no process under its id puts exactly one \<open>DeadLetterEvent\<close> with that target,
  message and sender into the event stream's mailbox and changes nothing else; a send to
  a PID of another address with no remote configured does the same with one
  \<open>EngineRemoteMissingEvent\<close>; and with a remote configured the call is the remote's
  \<open>Send\<close>, which sends a \<open>streamDeliver\<close> of the target, sender and message to the
  stream router, in whose mailbox it arrives when the router is registered.
  \<open>Send\<close> is \<open>SendWithSender\<close> with a nil sender.
\<close>

theorem send_routes:
  assumes "eventStream e = Some es" and "Address es = address e" and "lookup e (ID es) = Some esp"
  shows "SendWithSender (Suc n) e None msg sender = Some e \<and>
         Send n e pid msg = SendWithSender n e pid msg None \<and>
         (Address p = address e \<and> lookup e (ID p) = None \<longrightarrow>
            SendWithSender (Suc (Suc n)) e (Some p) msg sender =
              Some (e\<lparr>mailbox := (mailbox e)(proc_ref esp := mailbox e (proc_ref esp) @
                        [\<lparr>Msg = DeadLetterEvent (Some p) msg sender, Sender = None\<rparr>])\<rparr>)) \<and>
         (Address p \<noteq> address e \<and> remote e = None \<longrightarrow>
            SendWithSender (Suc (Suc n)) e (Some p) msg sender =
              Some (e\<lparr>mailbox := (mailbox e)(proc_ref esp := mailbox e (proc_ref esp) @
                        [\<lparr>Msg = EngineRemoteMissingEvent (Some p) sender msg, Sender = None\<rparr>])\<rparr>)) \<and>
         (Address p \<noteq> address e \<and> remote e = Some r \<longrightarrow>
            SendWithSender (Suc n) e (Some p) msg sender = Remote_Send n e r (Some p) msg sender \<and>
            Remote_Send n e r (Some p) msg sender =
              Send n e (streamRouterPID r) (StreamDeliver (streamDeliver sender (Some p) msg))) \<and>
         (Address p \<noteq> address e \<and> remote e = Some r \<and> streamRouterPID r = Some rp \<and>
          Address rp = address e \<and> lookup e (ID rp) = Some router \<longrightarrow>
            SendWithSender (Suc (Suc n)) e (Some p) msg sender =
              Some (e\<lparr>mailbox := (mailbox e)(proc_ref router := mailbox e (proc_ref router) @
                        [\<lparr>Msg = StreamDeliver (streamDeliver sender (Some p) msg), Sender = None\<rparr>])\<rparr>))"
proof -
  have a: "SendWithSender (Suc n) e None msg sender = Some e"
    by (simp add: SendWithSender_def send_nil)
  have b: "Send n e pid msg = SendWithSender n e pid msg None"
    by (simp add: Send_def SendWithSender_def)
  have c: "SendWithSender (Suc (Suc n)) e (Some p) msg sender =
              Some (e\<lparr>mailbox := (mailbox e)(proc_ref esp := mailbox e (proc_ref esp) @
                        [\<lparr>Msg = DeadLetterEvent (Some p) msg sender, Sender = None\<rparr>])\<rparr>)"
    if "Address p = address e" "lookup e (ID p) = None"
  proof -
    have "send (Suc (Suc n)) e (Some p) msg sender = BroadcastEvent (Suc n) e (DeadLetterEvent (Some p) msg sender)"
      using that by (simp add: send.simps[of "Suc (Suc n)"] isLocalMessage_def Registry_get_def)
    then show ?thesis
      using BroadcastEvent_delivers[OF assms] by (simp add: SendWithSender_def Processer_Send_def)
  qed
  have d: "SendWithSender (Suc (Suc n)) e (Some p) msg sender =
              Some (e\<lparr>mailbox := (mailbox e)(proc_ref esp := mailbox e (proc_ref esp) @
                        [\<lparr>Msg = EngineRemoteMissingEvent (Some p) sender msg, Sender = None\<rparr>])\<rparr>)"
    if "Address p \<noteq> address e" "remote e = None"
  proof -
    have "send (Suc (Suc n)) e (Some p) msg sender =
            BroadcastEvent (Suc n) e (EngineRemoteMissingEvent (Some p) sender msg)"
      using that by (auto simp: send.simps[of "Suc (Suc n)"] isLocalMessage_def)
    then show ?thesis
      using BroadcastEvent_delivers[OF assms] by (simp add: SendWithSender_def Processer_Send_def)
  qed
  have f: "SendWithSender (Suc n) e (Some p) msg sender = Remote_Send n e r (Some p) msg sender"
    if "Address p \<noteq> address e" "remote e = Some r"
    using that by (auto simp: SendWithSender_def send.simps[of "Suc n"] isLocalMessage_def)
  have g: "Remote_Send n e r (Some p) msg sender =
              Send n e (streamRouterPID r) (StreamDeliver (streamDeliver sender (Some p) msg))"
    by (simp add: Send_def)
  have h: "SendWithSender (Suc (Suc n)) e (Some p) msg sender =
              Some (e\<lparr>mailbox := (mailbox e)(proc_ref router := mailbox e (proc_ref router) @
                        [\<lparr>Msg = StreamDeliver (streamDeliver sender (Some p) msg), Sender = None\<rparr>])\<rparr>)"
    if "Address p \<noteq> address e" "remote e = Some r" "streamRouterPID r = Some rp"
       "Address rp = address e" "lookup e (ID rp) = Some router"
  proof -
    have "send (Suc (Suc n)) e (Some p) msg sender =
            send (Suc n) e (Some rp) (StreamDeliver (streamDeliver sender (Some p) msg)) None"
      using that by (auto simp: send.simps[of "Suc (Suc n)"] isLocalMessage_def)
    then show ?thesis
      using send_local_hit[OF that(4,5)] by (simp add: SendWithSender_def Processer_Send_def)
  qed
  show ?thesis using a b c d f g h by blast
qed


text \<open>
  The engines of the witnesses: one without a remote, at the address \<open>local\<close>, with its
  event stream and one actor \<open>echo/1\<close>; and one with a remote, whose stream router is
  registered.
\<close>

definition S2_eventStream :: PID where
  "S2_eventStream = \<lparr>Address = ''local'', ID = ''eventstream/1''\<rparr>"

definition S2_engine :: "nat Engine" where
  "S2_engine =
     \<lparr>lookup = [''eventstream/1'' \<mapsto> \<lparr>proc_ref = 0, proc_PID = S2_eventStream\<rparr>,
                ''echo/1'' \<mapsto> \<lparr>proc_ref = 1, proc_PID = \<lparr>Address = ''local'', ID = ''echo/1''\<rparr>\<rparr>],
      address = ''local'', remote = None, eventStream = Some S2_eventStream,
      mailbox = (\<lambda>h. [])\<rparr>"

definition S4_router :: PID where
  "S4_router = \<lparr>Address = ''127.0.0.1:5000'', ID = ''router/7''\<rparr>"

definition S4_engine :: "nat Engine" where
  "S4_engine =
     \<lparr>lookup = [''eventstream/1'' \<mapsto> \<lparr>proc_ref = 0, proc_PID = \<lparr>Address = ''127.0.0.1:5000'', ID = ''eventstream/1''\<rparr>\<rparr>,
                ''router/7'' \<mapsto> \<lparr>proc_ref = 1, proc_PID = S4_router\<rparr>],
      address = ''127.0.0.1:5000'',
      remote = Some \<lparr>addr = ''127.0.0.1:5000'', streamRouterPID = Some S4_router\<rparr>,
      eventStream = Some \<lparr>Address = ''127.0.0.1:5000'', ID = ''eventstream/1''\<rparr>,
      mailbox = (\<lambda>h. [])\<rparr>"

theorem send_routes_witness:
  "eventStream S2_engine = Some S2_eventStream \<and> Address S2_eventStream = address S2_engine \<and>
   lookup S2_engine (ID S2_eventStream) = Some \<lparr>proc_ref = 0, proc_PID = S2_eventStream\<rparr> \<and>
   lookup S2_engine ''missing'' = None \<and> remote S2_engine = None \<and>
   SendWithSender 2 S2_engine (Some \<lparr>Address = ''local'', ID = ''missing''\<rparr>) (UserMsg 42) None =
     Some (S2_engine\<lparr>mailbox := (mailbox S2_engine)(0 := [\<lparr>Msg = DeadLetterEvent (Some \<lparr>Address = ''local'', ID = ''missing''\<rparr>) (UserMsg 42) None, Sender = None\<rparr>])\<rparr>) \<and>
   SendWithSender 2 S2_engine (Some \<lparr>Address = ''127.0.0.1:4000'', ID = ''echo/1''\<rparr>) (UserMsg 42) None =
     Some (S2_engine\<lparr>mailbox := (mailbox S2_engine)(0 := [\<lparr>Msg = EngineRemoteMissingEvent (Some \<lparr>Address = ''127.0.0.1:4000'', ID = ''echo/1''\<rparr>) None (UserMsg 42), Sender = None\<rparr>])\<rparr>) \<and>
   SendWithSender 2 S4_engine (Some \<lparr>Address = ''127.0.0.1:4000'', ID = ''echo/1''\<rparr>) (UserMsg 42) (Some S4_router) =
     Some (S4_engine\<lparr>mailbox := (mailbox S4_engine)(1 := [\<lparr>Msg = StreamDeliver (streamDeliver (Some S4_router) (Some \<lparr>Address = ''127.0.0.1:4000'', ID = ''echo/1''\<rparr>) (UserMsg 42)), Sender = None\<rparr>])\<rparr>)"
proof -
  have h2: "eventStream S2_engine = Some S2_eventStream" "Address S2_eventStream = address S2_engine"
    "lookup S2_engine (ID S2_eventStream) = Some \<lparr>proc_ref = 0, proc_PID = S2_eventStream\<rparr>"
    by (simp_all add: S2_engine_def S2_eventStream_def)
  have h4: "eventStream S4_engine = Some \<lparr>Address = ''127.0.0.1:5000'', ID = ''eventstream/1''\<rparr>"
    "Address \<lparr>Address = ''127.0.0.1:5000'', ID = ''eventstream/1''\<rparr> = address S4_engine"
    "lookup S4_engine (ID \<lparr>Address = ''127.0.0.1:5000'', ID = ''eventstream/1''\<rparr>) =
       Some \<lparr>proc_ref = 0, proc_PID = \<lparr>Address = ''127.0.0.1:5000'', ID = ''eventstream/1''\<rparr>\<rparr>"
    by (simp_all add: S4_engine_def)
  have m: "lookup S2_engine ''missing'' = None" "remote S2_engine = None" "address S2_engine = ''local''"
    "mailbox S2_engine 0 = []"
    by (simp_all add: S2_engine_def)
  have r: "remote S4_engine = Some \<lparr>addr = ''127.0.0.1:5000'', streamRouterPID = Some S4_router\<rparr>"
    "address S4_engine = ''127.0.0.1:5000''" "lookup S4_engine (ID S4_router) = Some \<lparr>proc_ref = 1, proc_PID = S4_router\<rparr>"
    "Address S4_router = ''127.0.0.1:5000''" "mailbox S4_engine 1 = []"
    by (simp_all add: S4_engine_def S4_router_def)
  from send_routes[OF h2, of 0 "UserMsg 42" None None "\<lparr>Address = ''local'', ID = ''missing''\<rparr>"
        "\<lparr>addr = ''127.0.0.1:5000'', streamRouterPID = Some S4_router\<rparr>" S4_router "\<lparr>proc_ref = 1, proc_PID = S4_router\<rparr>"] m
  have c1: "SendWithSender 2 S2_engine (Some \<lparr>Address = ''local'', ID = ''missing''\<rparr>) (UserMsg 42) None =
     Some (S2_engine\<lparr>mailbox := (mailbox S2_engine)(0 := [\<lparr>Msg = DeadLetterEvent (Some \<lparr>Address = ''local'', ID = ''missing''\<rparr>) (UserMsg 42) None, Sender = None\<rparr>])\<rparr>)"
    by (simp add: numeral_2_eq_2)
  from send_routes[OF h2, of 0 "UserMsg 42" None None "\<lparr>Address = ''127.0.0.1:4000'', ID = ''echo/1''\<rparr>"
        "\<lparr>addr = ''127.0.0.1:5000'', streamRouterPID = Some S4_router\<rparr>" S4_router "\<lparr>proc_ref = 1, proc_PID = S4_router\<rparr>"] m
  have c2: "SendWithSender 2 S2_engine (Some \<lparr>Address = ''127.0.0.1:4000'', ID = ''echo/1''\<rparr>) (UserMsg 42) None =
     Some (S2_engine\<lparr>mailbox := (mailbox S2_engine)(0 := [\<lparr>Msg = EngineRemoteMissingEvent (Some \<lparr>Address = ''127.0.0.1:4000'', ID = ''echo/1''\<rparr>) None (UserMsg 42), Sender = None\<rparr>])\<rparr>)"
    by (simp add: numeral_2_eq_2)
  from send_routes[OF h4, of 0 "UserMsg 42" "Some S4_router" None "\<lparr>Address = ''127.0.0.1:4000'', ID = ''echo/1''\<rparr>"
        "\<lparr>addr = ''127.0.0.1:5000'', streamRouterPID = Some S4_router\<rparr>" S4_router "\<lparr>proc_ref = 1, proc_PID = S4_router\<rparr>"] r
  have c3: "SendWithSender 2 S4_engine (Some \<lparr>Address = ''127.0.0.1:4000'', ID = ''echo/1''\<rparr>) (UserMsg 42) (Some S4_router) =
     Some (S4_engine\<lparr>mailbox := (mailbox S4_engine)(1 := [\<lparr>Msg = StreamDeliver (streamDeliver (Some S4_router) (Some \<lparr>Address = ''127.0.0.1:4000'', ID = ''echo/1''\<rparr>) (UserMsg 42)), Sender = None\<rparr>])\<rparr>)"
    by (simp add: numeral_2_eq_2)
  show ?thesis using h2 m(1,2) c1 c2 c3 by simp
qed

text \<open>
  Claim C3. \<open>SpawnProc\<close> (and \<open>Spawn\<close>, which builds the process and calls it) with a
  process whose id is already in the registry, in an engine whose event stream is its
  own registered process: the result does not depend on \<open>Start\<close> (the new process is not
  started), the registry is the one before the call, the only change of the engine is one
  \<open>ActorDuplicateIdEvent\<close> with the new process's PID in the event stream's mailbox, and
  the call returns the PID of the new process.
\<close>

theorem duplicate_spawn_rejected:
  assumes "lookup e (ID (proc_PID p)) = Some incumbent"
    and "eventStream e = Some es" and "Address es = address e" and "lookup e (ID es) = Some esp"
  shows "SpawnProc Start (Suc n) e p =
           Some (e\<lparr>mailbox := (mailbox e)(proc_ref esp := mailbox e (proc_ref esp) @
                     [\<lparr>Msg = ActorDuplicateIdEvent (proc_PID p), Sender = None\<rparr>])\<rparr>,
                 proc_PID p) \<and>
         (newProcess e (spawn_options rnd producer kind opts) h = Inr p \<longrightarrow>
            Spawn Start (Suc n) e h rnd producer kind opts =
              Inr (Some (e\<lparr>mailbox := (mailbox e)(proc_ref esp := mailbox e (proc_ref esp) @
                            [\<lparr>Msg = ActorDuplicateIdEvent (proc_PID p), Sender = None\<rparr>])\<rparr>,
                         proc_PID p)))"
proof -
  have "Registry_add Start (Suc n) e p = BroadcastEvent (Suc n) e (ActorDuplicateIdEvent (proc_PID p))"
    using assms(1) by (simp add: Registry_add_def)
  then have "SpawnProc Start (Suc n) e p =
           Some (e\<lparr>mailbox := (mailbox e)(proc_ref esp := mailbox e (proc_ref esp) @
                     [\<lparr>Msg = ActorDuplicateIdEvent (proc_PID p), Sender = None\<rparr>])\<rparr>,
                 proc_PID p)"
    using BroadcastEvent_delivers[OF assms(2-4)] by (simp add: SpawnProc_def Processer_Send_def)
  then show ?thesis by (simp add: Spawn_def)
qed

theorem duplicate_spawn_rejected_witness:
  "lookup S2_engine ''echo/1'' = Some \<lparr>proc_ref = 1, proc_PID = \<lparr>Address = ''local'', ID = ''echo/1''\<rparr>\<rparr> \<and>
   eventStream S2_engine = Some S2_eventStream \<and> Address S2_eventStream = address S2_engine \<and>
   lookup S2_engine (ID S2_eventStream) = Some \<lparr>proc_ref = 0, proc_PID = S2_eventStream\<rparr> \<and>
   newProcess S2_engine (spawn_options ''77'' (0::nat) ''echo'' [WithID ''1'']) 5 =
     Inr \<lparr>proc_ref = 5, proc_PID = \<lparr>Address = ''local'', ID = ''echo/1''\<rparr>\<rparr> \<and>
   Spawn (\<lambda>proc e. None) 1 S2_engine 5 ''77'' (0::nat) ''echo'' [WithID ''1''] =
     Inr (Some (S2_engine\<lparr>mailbox := (mailbox S2_engine)
                   (0 := [\<lparr>Msg = ActorDuplicateIdEvent \<lparr>Address = ''local'', ID = ''echo/1''\<rparr>, Sender = None\<rparr>])\<rparr>,
                \<lparr>Address = ''local'', ID = ''echo/1''\<rparr>))"
proof -
  let ?p = "\<lparr>proc_ref = 5, proc_PID = \<lparr>Address = ''local'', ID = ''echo/1''\<rparr>\<rparr>"
  have h: "lookup S2_engine (ID (proc_PID ?p)) = Some \<lparr>proc_ref = 1, proc_PID = \<lparr>Address = ''local'', ID = ''echo/1''\<rparr>\<rparr>"
    "eventStream S2_engine = Some S2_eventStream" "Address S2_eventStream = address S2_engine"
    "lookup S2_engine (ID S2_eventStream) = Some \<lparr>proc_ref = 0, proc_PID = S2_eventStream\<rparr>"
    by (simp_all add: S2_engine_def S2_eventStream_def)
  have np: "newProcess S2_engine (spawn_options ''77'' (0::nat) ''echo'' [WithID ''1'']) 5 = Inr ?p"
    by (simp add: newProcess_def spawn_options_def DefaultOpts_def WithID_def NewPID_def S2_engine_def)
  have mb: "mailbox S2_engine 0 = []" by (simp add: S2_engine_def)
  from duplicate_spawn_rejected[OF h, where Start = "\<lambda>proc e. None" and n = 0 and rnd = "''77''"
      and producer = "0::nat" and kind = "''echo''" and opts = "[WithID ''1'']" and h = 5] np mb
  show ?thesis using h by simp
qed

section \<open>actor/types.go: process, Invoke, Start and tryRestart\<close>

text \<open>
  What a process does that others can see, in order: a call of the producer, a call of a
  receive function with the context's message and sender, an event handed to
  \<open>BroadcastEvent\<close>, a sleep of the restart delay, \<open>inbox.Start\<close>, \<open>inbox.Stop\<close>,
  \<open>Registry.Remove\<close> and a call of a poison pill's cancel function.
\<close>

datatype 'a action =
    Produced
  | Received "'a message" "PID option"
  | Broadcast "'a message"
  | Slept
  | InboxStarted
  | InboxStopped
  | RegistryRemoved
  | Cancelled

text \<open>
  \<open>process\<close>: the embedded options, the PID, the restart counter (\<open>int32\<close>), the
  message buffer, and of the context the receiver and the sender. The process has no
  parent and no children. \<open>trace\<close> collects the actions.
\<close>

record ('a, 's) process =
  opts :: "('a, 's) Opts"
  proc_pid :: PID
  restarts :: "32 word"
  mbuffer :: "'a message Envelope list"
  receiver :: 's
  ctx_sender :: "PID option"
  trace :: "'a action list"

text \<open>
  \<open>applyMiddleware\<close> wraps the receive function from the last middleware to the first.
\<close>

definition applyMiddleware ::
  "('a, 's) ReceiveFunc \<Rightarrow> (('a, 's) ReceiveFunc \<Rightarrow> ('a, 's) ReceiveFunc) list \<Rightarrow> ('a, 's) ReceiveFunc" where
  "applyMiddleware rcv middleware = foldr (\<lambda>mw r. mw r) middleware rcv"

text \<open>
  A call of a receive function on the context: it returns (\<open>Inr\<close>) or panics (\<open>Inl\<close>,
  with the panic value).
\<close>

definition call_receive ::
  "('a, 's) ReceiveFunc \<Rightarrow> ('a, 's) process \<Rightarrow> 'a message \<Rightarrow> (pvalue \<times> ('a, 's) process) + ('a, 's) process" where
  "call_receive f p m =
     (let p1 = p\<lparr>trace := trace p @ [Received m (ctx_sender p)]\<rparr> in
      case f (receiver p) m (ctx_sender p) of
        Returns s \<Rightarrow> Inr (p1\<lparr>receiver := s\<rparr>)
      | Panics v s \<Rightarrow> Inl (v, p1\<lparr>receiver := s\<rparr>))"

definition invokeMsg ::
  "('a, 's) ReceiveFunc \<Rightarrow> ('a, 's) process \<Rightarrow> 'a message Envelope \<Rightarrow> (pvalue \<times> ('a, 's) process) + ('a, 's) process" where
  "invokeMsg Receive p msg =
     (case Msg msg of
        poisonPill graceful \<Rightarrow> Inr p
      | m \<Rightarrow>
          call_receive
            (if length (Middleware (opts p)) > 0 then applyMiddleware Receive (Middleware (opts p)) else Receive)
            (p\<lparr>ctx_sender := Sender msg\<rparr>) m)"

text \<open>
  \<open>cleanup(cancel)\<close>; the flag says whether \<open>cancel\<close> is a function (true) or nil. The
  call \<open>defer cancel()\<close> runs when \<open>cleanup\<close> ends, also by a panic; calling a nil
  function panics.
\<close>

definition cleanup ::
  "('a, 's) ReceiveFunc \<Rightarrow> ('a, 's) process \<Rightarrow> bool \<Rightarrow> (pvalue \<times> ('a, 's) process) + ('a, 's) process" where
  "cleanup Receive p cancel =
     (let p1 = p\<lparr>trace := trace p @ [InboxStopped, RegistryRemoved]\<rparr> in
      case call_receive (applyMiddleware Receive (Middleware (opts p1))) p1 Stopped of
        Inl (v, p2) \<Rightarrow>
          if cancel then Inl (v, p2\<lparr>trace := trace p2 @ [Cancelled]\<rparr>)
          else Inl (RuntimeError NilDereference, p2)
      | Inr p2 \<Rightarrow>
          (let p3 = p2\<lparr>trace := trace p2 @ [Broadcast (ActorStoppedEvent (proc_pid p2))]\<rparr> in
           if cancel then Inr (p3\<lparr>trace := trace p3 @ [Cancelled]\<rparr>)
           else Inl (RuntimeError NilDereference, p3)))"

text \<open>
  The loop of \<open>Invoke\<close> over the batch: \<open>rest\<close> is \<open>msgs[i:]\<close>, and \<open>nproc\<close> and
  \<open>processed\<close> are the counters of the source. \<open>drain\<close> is the inner loop over
  \<open>msgs[processed:]\<close> after a graceful poison pill. A panic leaves the loop with the
  panic value and the value of \<open>nproc\<close> at that moment.
\<close>

fun drain ::
  "('a, 's) ReceiveFunc \<Rightarrow> ('a, 's) process \<Rightarrow> 'a message Envelope list \<Rightarrow> (pvalue \<times> ('a, 's) process) + ('a, 's) process" where
  "drain Receive p [] = Inr p"
| "drain Receive p (m # ms) =
     (case invokeMsg Receive p m of Inl x \<Rightarrow> Inl x | Inr p' \<Rightarrow> drain Receive p' ms)"

fun invoke_batch ::
  "('a, 's) ReceiveFunc \<Rightarrow> ('a, 's) process \<Rightarrow> 'a message Envelope list \<Rightarrow> 'a message Envelope list \<Rightarrow> nat \<Rightarrow> nat
     \<Rightarrow> (pvalue \<times> nat \<times> ('a, 's) process) + ('a, 's) process" where
  "invoke_batch Receive p msgs [] nproc processed = Inr p"
| "invoke_batch Receive p msgs (msg # rest) nproc processed =
     (case Msg msg of
        poisonPill graceful \<Rightarrow>
          (case (if graceful then drain Receive p (drop processed msgs) else Inr p) of
             Inl (v, p') \<Rightarrow> Inl (v, nproc + 1, p')
           | Inr p' \<Rightarrow>
               (case cleanup Receive p' True of
                  Inl (v, p'') \<Rightarrow> Inl (v, nproc + 1, p'')
                | Inr p'' \<Rightarrow> Inr p''))
      | m \<Rightarrow>
          (case invokeMsg Receive p msg of
             Inl (v, p') \<Rightarrow> Inl (v, nproc + 1, p')
           | Inr p' \<Rightarrow> invoke_batch Receive p' msgs rest (nproc + 1) (processed + 1)))"

text \<open>
  \<open>Invoke\<close>, \<open>tryRestart\<close> and \<open>Start\<close> call each other, and a receiver that panics
  with an \<open>InternalError\<close> on every start is restarted without end: the functions take
  fuel, used up by \<open>Start\<close>, and return \<open>None\<close> without it. \<open>Start_recover\<close> is the
  deferred function of \<open>Start\<close>; the deferred function of \<open>Invoke\<close> is the \<open>Inl\<close> branch
  of \<open>Invoke\<close>. A panic that leaves a deferred function leaves the call: the result is
  \<open>Some (Inl _)\<close>.
\<close>

function Invoke ::
    "nat \<Rightarrow> ('a, 's) ReceiveFunc \<Rightarrow> ('a, 's) process \<Rightarrow> 'a message Envelope list
       \<Rightarrow> ((pvalue \<times> ('a, 's) process) + ('a, 's) process) option"
  and tryRestart ::
    "nat \<Rightarrow> ('a, 's) ReceiveFunc \<Rightarrow> ('a, 's) process \<Rightarrow> pvalue
       \<Rightarrow> ((pvalue \<times> ('a, 's) process) + ('a, 's) process) option"
  and Start_recover ::
    "nat \<Rightarrow> ('a, 's) ReceiveFunc \<Rightarrow> ('a, 's) process \<Rightarrow> pvalue
       \<Rightarrow> ((pvalue \<times> ('a, 's) process) + ('a, 's) process) option"
  and Start ::
    "nat \<Rightarrow> ('a, 's) ReceiveFunc \<Rightarrow> ('a, 's) process
       \<Rightarrow> ((pvalue \<times> ('a, 's) process) + ('a, 's) process) option"
where
  "Invoke n Receive p msgs =
     (case invoke_batch Receive p msgs msgs 0 0 of
        Inr p' \<Rightarrow> Some (Inr p')
      | Inl (v, nproc, p1) \<Rightarrow>
          (case call_receive Receive p1 Stopped of
             Inl (v', p2) \<Rightarrow> Some (Inl (v', p2))
           | Inr p2 \<Rightarrow>
               tryRestart n Receive
                 (p2\<lparr>mbuffer := map (\<lambda>i. msgs ! (i + nproc)) [0..<length msgs - nproc]\<rparr>) v))"
| "tryRestart n Receive p v =
     (if v = InternalError then Start n Receive (p\<lparr>trace := trace p @ [Slept]\<rparr>)
      else if restarts p = MaxRestarts (opts p) then
        (case cleanup Receive
                (p\<lparr>trace := trace p @ [Broadcast (ActorMaxRestartsExceededEvent (proc_pid p))]\<rparr>) False of
           Inl x \<Rightarrow> Some (Inl x)
         | Inr p' \<Rightarrow> Some (Inr p'))
      else
        Start n Receive
          (p\<lparr>restarts := restarts p + 1,
             trace := trace p @ [Broadcast (ActorRestartedEvent (proc_pid p) v (restarts p + 1)), Slept]\<rparr>))"
| "Start_recover n Receive p v =
     (case call_receive Receive p Stopped of
        Inl x \<Rightarrow> Some (Inl x)
      | Inr p' \<Rightarrow> tryRestart n Receive p' v)"
| "Start fuel Receive p =
     (case fuel of
        0 \<Rightarrow> None
      | Suc n \<Rightarrow>
          (let p0 = p\<lparr>receiver := Producer (opts p), trace := trace p @ [Produced]\<rparr>;
               f = applyMiddleware Receive (Middleware (opts p0))
           in case call_receive f p0 Initialized of
                Inl (v, p1) \<Rightarrow> Start_recover n Receive p1 v
              | Inr p1 \<Rightarrow>
                  (case call_receive f
                          (p1\<lparr>trace := trace p1 @ [Broadcast (ActorInitializedEvent (proc_pid p1))]\<rparr>)
                          Started of
                     Inl (v, p2) \<Rightarrow> Start_recover n Receive p2 v
                   | Inr p2 \<Rightarrow>
                       (let p3 = p2\<lparr>trace := trace p2 @ [Broadcast (ActorStartedEvent (proc_pid p2))]\<rparr>
                        in if length (mbuffer p3) > 0
                           then (case Invoke n Receive p3 (mbuffer p3) of
                                   None \<Rightarrow> None
                                 | Some (Inl (v, p4)) \<Rightarrow> Start_recover n Receive p4 v
                                 | Some (Inr p4) \<Rightarrow>
                                     Some (Inr (p4\<lparr>mbuffer := [], trace := trace p4 @ [InboxStarted]\<rparr>)))
                           else Some (Inr (p3\<lparr>trace := trace p3 @ [InboxStarted]\<rparr>))))))"
  by pat_completeness auto
termination
  by (relation "measure (\<lambda>x. case x of
          Inl (Inl (n, _)) \<Rightarrow> 4 * n + 3
        | Inl (Inr (n, _)) \<Rightarrow> 4 * n + 1
        | Inr (Inl (n, _)) \<Rightarrow> 4 * n + 2
        | Inr (Inr (n, _)) \<Rightarrow> 4 * n)") auto


declare Invoke.simps [simp del] tryRestart.simps [simp del] Start_recover.simps [simp del] Start.simps [simp del]

text \<open>
  A receiver that logs the user messages it gets and panics on \<open>crash\<close>, and a started
  process of it with the default options (three restarts).
\<close>

definition crash_Receive :: "(string, string list) ReceiveFunc" where
  "crash_Receive s m sender =
     (case m of
        UserMsg x \<Rightarrow> if x = ''crash'' then Panics OtherValue s else Returns (s @ [x])
      | _ \<Rightarrow> Returns s)"

definition logger :: "(string, string list) process" where
  "logger =
     \<lparr>opts = (DefaultOpts [])\<lparr>Opts_Kind := ''logger'', Opts_ID := ''1''\<rparr>,
      proc_pid = \<lparr>Address = ''local'', ID = ''logger/1''\<rparr>,
      restarts = 0, mbuffer = [], receiver = [], ctx_sender = None, trace = []\<rparr>"

definition env :: "string \<Rightarrow> string message Envelope" where
  "env x = \<lparr>Msg = UserMsg x, Sender = None\<rparr>"


text \<open>
  Claim C2 fails on the code. In the batch: graceful poison pill, \<open>a\<close>, \<open>crash\<close>, \<open>b\<close>,
  the pill makes \<open>Invoke\<close> process \<open>msgs[processed:]\<close> in an inner loop that does not
  advance \<open>nproc\<close>, which stays \<open>1\<close>. The receiver panics on \<open>crash\<close> (index 2), the
  buffer becomes \<open>msgs[1:]\<close>, and after the restart \<open>a\<close> is delivered a second time and
  \<open>crash\<close> is delivered again (a second restart follows) before \<open>b\<close>.
\<close>

theorem graceful_pill_batch_replays_processed_messages:
  "\<exists>p'. Invoke 5 crash_Receive logger
            [\<lparr>Msg = poisonPill True, Sender = None\<rparr>, env ''a'', env ''crash'', env ''b''] = Some (Inr p') \<and>
         restarts p' = 2 \<and>
         trace p' =
           [Received (UserMsg ''a'') None,
            Received (UserMsg ''crash'') None,
            Received Stopped None,
            Broadcast (ActorRestartedEvent \<lparr>Address = ''local'', ID = ''logger/1''\<rparr> OtherValue 1),
            Slept, Produced,
            Received Initialized None,
            Broadcast (ActorInitializedEvent \<lparr>Address = ''local'', ID = ''logger/1''\<rparr>),
            Received Started None,
            Broadcast (ActorStartedEvent \<lparr>Address = ''local'', ID = ''logger/1''\<rparr>),
            Received (UserMsg ''a'') None,
            Received (UserMsg ''crash'') None,
            Received Stopped None,
            Broadcast (ActorRestartedEvent \<lparr>Address = ''local'', ID = ''logger/1''\<rparr> OtherValue 2),
            Slept, Produced,
            Received Initialized None,
            Broadcast (ActorInitializedEvent \<lparr>Address = ''local'', ID = ''logger/1''\<rparr>),
            Received Started None,
            Broadcast (ActorStartedEvent \<lparr>Address = ''local'', ID = ''logger/1''\<rparr>),
            Received (UserMsg ''b'') None,
            InboxStarted, InboxStarted]"
  by (simp add: Invoke.simps tryRestart.simps Start_recover.simps Start.simps
        invokeMsg_def call_receive_def cleanup_def applyMiddleware_def
        crash_Receive_def logger_def env_def DefaultOpts_def Let_def)

section \<open>remote: the stream writer and the stream reader\<close>

text \<open>
  The wire \<open>Envelope\<close> and \<open>Message\<close> of the remote package (the actor package has an
  \<open>Envelope\<close> of its own, so this one is \<open>remote_Envelope\<close>). An entry of \<open>Messages\<close>
  is a pointer: \<open>None\<close> is nil. The indices are \<open>int32\<close>; the writer only stores
  lengths of tables of at most one batch in them, so they are modelled as \<open>int\<close>.
\<close>

record Message =
  Data :: string
  TypeNameIndex :: int
  SenderIndex :: int
  TargetIndex :: int

record remote_Envelope =
  Senders :: "PID list"
  Targets :: "PID list"
  TypeNames :: "string list"
  Messages :: "Message option list"

text \<open>
  The serializer is an interface (\<open>Serialize\<close> may fail, \<open>TypeName\<close>), and so is the
  deserializer: both are parameters.
\<close>

record 'a Serializer =
  Serialize :: "'a \<Rightarrow> string option"
  TypeName :: "'a \<Rightarrow> string"

text \<open>
  \<open>lookupPIDs\<close> and \<open>lookupTypeName\<close> update the Go map they are given and return the
  index and the extended slice. The map is an association list: its length is
  \<open>len(m)\<close>, and a key is only added when it is absent.
\<close>

definition lookupPIDs ::
  "(string \<Rightarrow> 64 word) \<Rightarrow> (64 word \<times> int) list \<Rightarrow> PID option \<Rightarrow> PID list
     \<Rightarrow> int \<times> (64 word \<times> int) list \<times> PID list" where
  "lookupPIDs xxh3 m pid pids =
     (case pid of
        None \<Rightarrow> (0, m, pids)
      | Some p \<Rightarrow>
          (let mx = int (length m); key = LookupKey xxh3 p in
           case map_of m key of
             Some idx \<Rightarrow> (idx, m, pids)
           | None \<Rightarrow> (mx, m @ [(key, mx)], pids @ [p])))"

definition lookupTypeName ::
  "(string \<times> int) list \<Rightarrow> string \<Rightarrow> string list \<Rightarrow> int \<times> (string \<times> int) list \<times> string list" where
  "lookupTypeName m name types =
     (let mx = int (length m) in
      case map_of m name of
        Some idx \<Rightarrow> (idx, m, types)
      | None \<Rightarrow> (mx, m @ [(name, mx)], types @ [name]))"

text \<open>
  \<open>streamWriter.Invoke\<close>: the local variables of the function, and its loop over the
  batch. Every envelope of the batch holds a \<open>*streamDeliver\<close> (the router sends nothing
  else to a writer), so the batch is a list of them. \<open>messages[i]\<close> is written in order
  of \<open>i\<close> and stays nil when \<open>Serialize\<close> fails, so the slice is built by appending.
  \<open>Invoke\<close> returns the envelope it hands to \<open>stream.Send\<close>.
\<close>

record writer_tables =
  typeLookup :: "(string \<times> int) list"
  typeNames :: "string list"
  senderLookup :: "(64 word \<times> int) list"
  senders :: "PID list"
  targetLookup :: "(64 word \<times> int) list"
  targets :: "PID list"
  messages :: "Message option list"

fun invoke_loop ::
  "'a Serializer \<Rightarrow> (string \<Rightarrow> 64 word) \<Rightarrow> 'a streamDeliver list \<Rightarrow> writer_tables \<Rightarrow> writer_tables" where
  "invoke_loop ser xxh3 [] t = t"
| "invoke_loop ser xxh3 (stream # rest) t =
     (let (typeID, tl', tn') = lookupTypeName (typeLookup t) (TypeName ser (sd_msg stream)) (typeNames t);
          (senderID, sl', ss') = lookupPIDs xxh3 (senderLookup t) (sd_sender stream) (senders t);
          (targetID, tgl', ts') = lookupPIDs xxh3 (targetLookup t) (sd_target stream) (targets t);
          t' = t\<lparr>typeLookup := tl', typeNames := tn', senderLookup := sl', senders := ss',
                 targetLookup := tgl', targets := ts'\<rparr>
      in case Serialize ser (sd_msg stream) of
           None \<Rightarrow> invoke_loop ser xxh3 rest (t'\<lparr>messages := messages t' @ [None]\<rparr>)
         | Some b \<Rightarrow>
             invoke_loop ser xxh3 rest
               (t'\<lparr>messages := messages t' @
                    [Some \<lparr>Data = b, TypeNameIndex = typeID, SenderIndex = senderID,
                           TargetIndex = targetID\<rparr>]\<rparr>))"

definition Invoke_writer :: "'a Serializer \<Rightarrow> (string \<Rightarrow> 64 word) \<Rightarrow> 'a streamDeliver list \<Rightarrow> remote_Envelope" where
  "Invoke_writer ser xxh3 msgs =
     (let t = invoke_loop ser xxh3 msgs
                \<lparr>typeLookup = [], typeNames = [], senderLookup = [], senders = [],
                 targetLookup = [], targets = [], messages = []\<rparr>
      in \<lparr>Senders = senders t, Targets = targets t, TypeNames = typeNames t, Messages = messages t\<rparr>)"

text \<open>
  \<open>streamReader.Receive\<close>, for one envelope: the list of the calls
  \<open>SendLocal(target, payload, sender)\<close> it makes, in order, and how the loop ended. A
  failed \<open>Deserialize\<close> returns the error; an index outside its table, or a nil message,
  panics; the calls made before are kept.
\<close>

definition at_idx :: "'x list \<Rightarrow> int \<Rightarrow> panic + 'x" where
  "at_idx xs i = (if 0 \<le> i \<and> i < int (length xs) then Inr (xs ! nat i) else Inl IndexOutOfRange)"

datatype recv_error = Panicked panic | DeserializeFailed

fun receive_loop ::
  "(string \<Rightarrow> string \<Rightarrow> 'a option) \<Rightarrow> remote_Envelope \<Rightarrow> Message option list
     \<Rightarrow> (PID \<times> 'a \<times> PID option) list \<times> recv_error option" where
  "receive_loop Deserialize envelope [] = ([], None)"
| "receive_loop Deserialize envelope (None # rest) = ([], Some (Panicked NilDereference))"
| "receive_loop Deserialize envelope (Some m # rest) =
     (case at_idx (TypeNames envelope) (TypeNameIndex m) of
        Inl e \<Rightarrow> ([], Some (Panicked e))
      | Inr tname \<Rightarrow>
          (case Deserialize (Data m) tname of
             None \<Rightarrow> ([], Some DeserializeFailed)
           | Some payload \<Rightarrow>
               (case at_idx (Targets envelope) (TargetIndex m) of
                  Inl e \<Rightarrow> ([], Some (Panicked e))
                | Inr tgt \<Rightarrow>
                    (case (if length (Senders envelope) > 0
                           then (case at_idx (Senders envelope) (SenderIndex m) of
                                   Inl e \<Rightarrow> Inl e | Inr s \<Rightarrow> Inr (Some s))
                           else Inr None) of
                       Inl e \<Rightarrow> ([], Some (Panicked e))
                     | Inr sndr \<Rightarrow>
                         (let (ds, r) = receive_loop Deserialize envelope rest
                          in ((tgt, payload, sndr) # ds, r))))))"

definition Receive_reader ::
  "(string \<Rightarrow> string \<Rightarrow> 'a option) \<Rightarrow> remote_Envelope \<Rightarrow> (PID \<times> 'a \<times> PID option) list \<times> recv_error option" where
  "Receive_reader Deserialize envelope = receive_loop Deserialize envelope (Messages envelope)"

text \<open>A serializer for text payloads, which never fails, and its deserializer.\<close>

definition text_Serializer :: "string Serializer" where
  "text_Serializer = \<lparr>Serialize = Some, TypeName = (\<lambda>m. ''text'')\<rparr>"

definition text_Deserialize :: "string \<Rightarrow> string \<Rightarrow> string option" where
  "text_Deserialize data tname = (if tname = ''text'' then Some data else None)"

text \<open>
  Claim C9 fails on the code. A batch of two messages for the same target, the first
  sent by \<open>echo/1\<close> and the second with a nil sender: \<open>lookupPIDs\<close> gives the nil sender
  the index \<open>0\<close>, the index of the first interned sender, and the reader, which finds the
  sender table non-empty, delivers the second message with the sender \<open>echo/1\<close>. This
  holds for every hash function.
\<close>

theorem nil_sender_delivered_as_first_sender:
  "Receive_reader text_Deserialize
     (Invoke_writer text_Serializer xxh3
        [streamDeliver (Some \<lparr>Address = ''127.0.0.1:4000'', ID = ''echo/1''\<rparr>)
                       (Some \<lparr>Address = ''127.0.0.1:5000'', ID = ''sink/1''\<rparr>) ''first'',
         streamDeliver None
                       (Some \<lparr>Address = ''127.0.0.1:5000'', ID = ''sink/1''\<rparr>) ''second'']) =
   ([(\<lparr>Address = ''127.0.0.1:5000'', ID = ''sink/1''\<rparr>, ''first'',
      Some \<lparr>Address = ''127.0.0.1:4000'', ID = ''echo/1''\<rparr>),
     (\<lparr>Address = ''127.0.0.1:5000'', ID = ''sink/1''\<rparr>, ''second'',
      Some \<lparr>Address = ''127.0.0.1:4000'', ID = ''echo/1''\<rparr>)], None)"
  by (simp add: Receive_reader_def Invoke_writer_def lookupPIDs_def lookupTypeName_def LookupKey_def
        at_idx_def text_Serializer_def text_Deserialize_def Let_def)

text \<open>
  Claim C10 fails on the code. \<open>LookupKey\<close> hashes the concatenation of address and id,
  so two different PIDs with the same concatenation have the same key under every hash
  function, and \<open>lookupPIDs\<close> gives the second the index of the first. In a batch with
  the targets \<open>ab\<close>/\<open>c\<close> and \<open>a\<close>/\<open>bc\<close> the second message is delivered to the first
  target; in a batch with the senders \<open>127.0.0.1:400\<close>/\<open>0a/1\<close> and
  \<open>127.0.0.1:4000\<close>/\<open>a/1\<close> the second message is delivered with the first sender.
\<close>

theorem LookupKey_conflates_distinct_PIDs:
  "LookupKey xxh3 \<lparr>Address = ''ab'', ID = ''c''\<rparr> = LookupKey xxh3 \<lparr>Address = ''a'', ID = ''bc''\<rparr> \<and>
   \<not> Equals \<lparr>Address = ''ab'', ID = ''c''\<rparr> \<lparr>Address = ''a'', ID = ''bc''\<rparr> \<and>
   lookupPIDs xxh3 [(LookupKey xxh3 \<lparr>Address = ''ab'', ID = ''c''\<rparr>, 0)]
       (Some \<lparr>Address = ''a'', ID = ''bc''\<rparr>) [\<lparr>Address = ''ab'', ID = ''c''\<rparr>] =
     (0, [(LookupKey xxh3 \<lparr>Address = ''ab'', ID = ''c''\<rparr>, 0)], [\<lparr>Address = ''ab'', ID = ''c''\<rparr>]) \<and>
   Receive_reader text_Deserialize
     (Invoke_writer text_Serializer xxh3
        [streamDeliver None (Some \<lparr>Address = ''ab'', ID = ''c''\<rparr>) ''first'',
         streamDeliver None (Some \<lparr>Address = ''a'', ID = ''bc''\<rparr>) ''second'']) =
   ([(\<lparr>Address = ''ab'', ID = ''c''\<rparr>, ''first'', None),
     (\<lparr>Address = ''ab'', ID = ''c''\<rparr>, ''second'', None)], None) \<and>
   Receive_reader text_Deserialize
     (Invoke_writer text_Serializer xxh3
        [streamDeliver (Some \<lparr>Address = ''127.0.0.1:400'', ID = ''0a/1''\<rparr>)
                       (Some \<lparr>Address = ''127.0.0.1:5000'', ID = ''sink/1''\<rparr>) ''first'',
         streamDeliver (Some \<lparr>Address = ''127.0.0.1:4000'', ID = ''a/1''\<rparr>)
                       (Some \<lparr>Address = ''127.0.0.1:5000'', ID = ''sink/1''\<rparr>) ''second'']) =
   ([(\<lparr>Address = ''127.0.0.1:5000'', ID = ''sink/1''\<rparr>, ''first'',
      Some \<lparr>Address = ''127.0.0.1:400'', ID = ''0a/1''\<rparr>),
     (\<lparr>Address = ''127.0.0.1:5000'', ID = ''sink/1''\<rparr>, ''second'',
      Some \<lparr>Address = ''127.0.0.1:400'', ID = ''0a/1''\<rparr>)], None)"
  by (simp add: Receive_reader_def Invoke_writer_def lookupPIDs_def lookupTypeName_def LookupKey_def
        Equals_def at_idx_def text_Serializer_def text_Deserialize_def Let_def)

end
